theory Spec2Isabelle
  imports Main "HOL-Library.Word" "HOL-Library.Signed_Division"
begin

unbundle bit_operations_syntax

chapter \<open>The e-Fuse bring-up of the ES3 bridge boot ROM (es3\_efuse.c)\<close>

text \<open>
  The functions of \<^verbatim>\<open>chips/es3tsb/src/es3_efuse.c\<close> are embedded one by one:
  \<^verbatim>\<open>count_ones\<close>, \<^verbatim>\<open>valid_hamming_weight\<close>, \<^verbatim>\<open>is_buf_const\<close>,
  \<^verbatim>\<open>get_endpoint_id\<close> and \<^verbatim>\<open>efuse_init\<close>. Buffers are byte lists indexed from the
  pointer the C code holds; \<^verbatim>\<open>uint8_t\<close> and \<^verbatim>\<open>uint32_t\<close> are 8-bit and 32-bit words.
  The register accessors, the hash primitive, the attribute writer and the last-error slot
  live in other files of the boot ROM; what they answer enters as fields of the
  records \<open>chip\<close> and \<open>bootrom\<close> below.
\<close>

type_synonym byte = "8 word"
type_synonym u32 = "32 word"

section \<open>Memory access\<close>

text \<open>
  The bridge's Cortex-M3 is little-endian: the \<^verbatim>\<open>uint32_t\<close> read through a cast byte
  pointer has the byte at the lowest address in its low eight bits. Every use of a
  32-bit access in this file (bit counting, comparison with a word of four equal bytes,
  bytewise XOR) gives the same answer in either byte order.
\<close>

definition le32 :: "byte \<Rightarrow> byte \<Rightarrow> byte \<Rightarrow> byte \<Rightarrow> u32" where
  "le32 b0 b1 b2 b3 =
     ucast b0 OR push_bit 8 (ucast b1) OR push_bit 16 (ucast b2) OR push_bit 24 (ucast b3)"

text \<open>\<^verbatim>\<open>*(uint32_t *)(buf + i)\<close>\<close>

definition load32 :: "byte list \<Rightarrow> nat \<Rightarrow> u32" where
  "load32 buf i = le32 (buf ! i) (buf ! (i + 1)) (buf ! (i + 2)) (buf ! (i + 3))"

text \<open>The four bytes of a \<^verbatim>\<open>uint32_t\<close> object, as seen through \<^verbatim>\<open>(uint8_t *)&w\<close>.\<close>

definition store32 :: "u32 \<Rightarrow> byte list" where
  "store32 w = [ucast w, ucast (drop_bit 8 w), ucast (drop_bit 16 w), ucast (drop_bit 24 w)]"

section \<open>count\_ones\<close>

text \<open>
  The body of the first loop of \<^verbatim>\<open>count_ones\<close>: the five mask-and-add steps on one
  32-bit chunk (masks \<^verbatim>\<open>MASK32_1S\<close> .. \<^verbatim>\<open>MASK32_16S\<close>).
\<close>

definition ones32 :: "u32 \<Rightarrow> u32" where
  "ones32 x0 =
     (let x32 = (x0 AND 0x55555555) + (drop_bit 1 x0 AND 0x55555555);
          x32 = (x32 AND 0x33333333) + (drop_bit 2 x32 AND 0x33333333);
          x32 = (x32 AND 0x0f0f0f0f) + (drop_bit 4 x32 AND 0x0f0f0f0f);
          x32 = (x32 AND 0x00ff00ff) + (drop_bit 8 x32 AND 0x00ff00ff);
          x32 = (x32 + drop_bit 16 x32) AND 0x0000ffff
      in x32)"

text \<open>
  The body of the second loop: the three steps on one byte (masks \<^verbatim>\<open>MASK8_1S\<close>,
  \<^verbatim>\<open>MASK8_2S\<close>, \<^verbatim>\<open>MASK8_4S\<close>). C computes in \<^verbatim>\<open>int\<close> and truncates on the assignment
  to the \<^verbatim>\<open>uint8_t\<close>; 8-bit word arithmetic is that truncation.
\<close>

definition ones8 :: "byte \<Rightarrow> byte" where
  "ones8 x0 =
     (let x = x0 - (drop_bit 1 x0 AND 0x55);
          x = (x AND 0x33) + (drop_bit 2 x AND 0x33);
          x = (x + drop_bit 4 x) AND 0x0f
      in x)"

text \<open>
  \<^verbatim>\<open>while (len >= 4) { x32 = *buf32++; ...; count += x32; len -= 4; }\<close>
  The state of the loop is the read position \<open>i\<close>, the remaining \<open>len\<close> (a C
  \<^verbatim>\<open>int\<close> that only decreases, so it never wraps) and \<open>count\<close>. The C \<^verbatim>\<open>int count\<close>
  is kept as its 32-bit pattern: \<^verbatim>\<open>count += x32\<close> adds in \<^verbatim>\<open>uint32_t\<close> and wraps.
\<close>

function count_ones_loop32 :: "byte list \<Rightarrow> nat \<Rightarrow> int \<Rightarrow> u32 \<Rightarrow> nat \<times> int \<times> u32" where
  "count_ones_loop32 buf i len count =
     (if len \<ge> 4
      then count_ones_loop32 buf (i + 4) (len - 4) (count + ones32 (load32 buf i))
      else (i, len, count))"
  by pat_completeness auto
termination
  by (relation "measure (\<lambda>(buf, i, len, count). nat len)") auto

text \<open>\<^verbatim>\<open>while (len > 0) { x = *buf++; ...; count += x; len--; }\<close>\<close>

function count_ones_loop8 :: "byte list \<Rightarrow> nat \<Rightarrow> int \<Rightarrow> u32 \<Rightarrow> u32" where
  "count_ones_loop8 buf i len count =
     (if len > 0
      then count_ones_loop8 buf (i + 1) (len - 1) (count + ucast (ones8 (buf ! i)))
      else count)"
  by pat_completeness auto
termination
  by (relation "measure (\<lambda>(buf, i, len, count). nat len)") auto

text \<open>The result is the \<^verbatim>\<open>int\<close> whose bit pattern is \<open>count\<close>.\<close>

definition count_ones :: "byte list \<Rightarrow> int \<Rightarrow> int" where
  "count_ones buf len =
     (case count_ones_loop32 buf 0 len 0 of
        (i, len', count) \<Rightarrow> sint (count_ones_loop8 buf i len' count))"

section \<open>valid\_hamming\_weight\<close>

text \<open>
  The value that a 32-bit \<^verbatim>\<open>int\<close> holds of an integer: the two's complement wrap.
\<close>

definition int32 :: "int \<Rightarrow> int" where
  "int32 k = signed_take_bit 31 k"

text \<open>
  \<^verbatim>\<open>return ((count == 0) || (count == (len * 8 / 2)));\<close> The product \<^verbatim>\<open>len * 8\<close> is a
  multiplication of 32-bit \<^verbatim>\<open>int\<close>s. C leaves its overflow undefined; the model takes
  what the 32-bit multiply of the target leaves, the wrapped product, so that for
  \<open>len \<ge> 2 ^ 28\<close> the model does not compute with a value that no \<^verbatim>\<open>int\<close> holds. The
  division of C truncates towards zero (\<open>sdiv\<close>). The lengths this file passes are 4
  and 32.
\<close>

definition valid_hamming_weight :: "byte list \<Rightarrow> int \<Rightarrow> bool" where
  "valid_hamming_weight buf len =
     (let count = count_ones buf len
      in count = 0 \<or> count = int32 (len * 8) sdiv 2)"

section \<open>is\_buf\_const\<close>

text \<open>
  \<^verbatim>\<open>while (size > sizeof(uint32_t)) { if (*(uint32_t *)buf != val32) return false; ... }\<close>
  An early \<^verbatim>\<open>return false\<close> is \<open>None\<close>; otherwise the loop hands the position and the
  remaining size to the byte loop. \<^verbatim>\<open>size\<close> is a \<^verbatim>\<open>uint32_t\<close> that only decreases.
\<close>

function is_buf_const_loop32 :: "byte list \<Rightarrow> nat \<Rightarrow> nat \<Rightarrow> u32 \<Rightarrow> (nat \<times> nat) option" where
  "is_buf_const_loop32 buf i sz val32 =
     (if sz > 4
      then (if load32 buf i \<noteq> val32 then None
            else is_buf_const_loop32 buf (i + 4) (sz - 4) val32)
      else Some (i, sz))"
  by pat_completeness auto
termination
  by (relation "measure (\<lambda>(buf, i, sz, val32). sz)") auto

text \<open>\<^verbatim>\<open>while (size > 0) { if (*buf++ != val) return false; size--; } return true;\<close>\<close>

function is_buf_const_loop8 :: "byte list \<Rightarrow> nat \<Rightarrow> nat \<Rightarrow> byte \<Rightarrow> bool" where
  "is_buf_const_loop8 buf i sz val =
     (if sz > 0
      then (if buf ! i \<noteq> val then False
            else is_buf_const_loop8 buf (i + 1) (sz - 1) val)
      else True)"
  by pat_completeness auto
termination
  by (relation "measure (\<lambda>(buf, i, sz, val). sz)") auto

definition is_buf_const :: "byte list \<Rightarrow> nat \<Rightarrow> byte \<Rightarrow> bool" where
  "is_buf_const buf sz val =
     (let val32 = (ucast val :: u32);
          val32 = val32 OR push_bit 8 val32;
          val32 = val32 OR push_bit 16 val32
      in case is_buf_const_loop32 buf 0 sz val32 of
           None \<Rightarrow> False
         | Some (i, sz') \<Rightarrow> is_buf_const_loop8 buf i sz' val)"

section \<open>What the claims count\<close>

text \<open>
  The number of set bits of a byte and of a buffer, written from the words of the
  specification (``the number of set bits in the first len bytes''), to compare
  \<open>count_ones\<close> with.
\<close>

definition pop_count :: "byte \<Rightarrow> nat" where
  "pop_count b = length (filter (bit b) [0..<8])"

definition bits_set :: "byte list \<Rightarrow> nat" where
  "bits_set bs = sum_list (map pop_count bs)"

section \<open>The collaborators of the e-Fuse code\<close>

text \<open>
  Modelled from the spec: the error codes of \<^verbatim>\<open>error.h\<close> (a header that is not part
  of \<^verbatim>\<open>es3_efuse.c\<close>). The specification lists them as mutually exclusive codes next
  to ``OK''.
\<close>

datatype bre_error =
    BRE_OK
  | BRE_EFUSE_ECC
  | BRE_EFUSE_BAD_ARA_VID
  | BRE_EFUSE_BAD_ARA_PID
  | BRE_EFUSE_BAD_IMS
  | BRE_EFUSE_ENDPOINT_ID_WRITE

datatype dme_attr = DME_DDBL2_ENDPOINTID_L | DME_DDBL2_ENDPOINTID_H

text \<open>
  Every call that \<^verbatim>\<open>efuse_init\<close> makes to a register accessor, to the hash primitive or
  to the attribute writer is logged, in order, so that ``no field is read'' and ``no
  attribute is written'' are statements about the log.
\<close>

datatype call =
    Get_eccerror
  | Get_vid
  | Get_pid
  | Get_ims nat
  | Hash_start
  | Hash_update "byte list"
  | Hash_final
  | Attr_write dme_attr u32

text \<open>
  What the hardware and the absent libraries answer. \<open>TSB_ECCERROR_ECC_ERROR\<close> is the
  mask of \<^verbatim>\<open>tsb_scm.h\<close>; \<open>eccerror\<close>, \<open>vid\<close>, \<open>pid\<close> and \<open>ims\<close> are the values behind
  \<^verbatim>\<open>tsb_get_eccerror\<close>, \<^verbatim>\<open>tsb_get_vid\<close>, \<^verbatim>\<open>tsb_get_pid\<close> and \<^verbatim>\<open>tsb_get_ims\<close> (the IMS
  fuse by byte index); \<open>hash\<close> is the digest the hash primitive computes of the bytes
  fed in one session; \<open>attr_write\<close> is the status \<^verbatim>\<open>chip_unipro_attr_write\<close> returns;
  \<open>SIMULATION\<close> says that the build defines \<^verbatim>\<open>_SIMULATION\<close>.
\<close>

record chip =
  TSB_ECCERROR_ECC_ERROR :: u32
  eccerror :: u32
  vid :: u32
  pid :: u32
  ims :: "nat \<Rightarrow> byte"
  hash :: "byte list \<Rightarrow> byte list"
  attr_write :: "dme_attr \<Rightarrow> u32 \<Rightarrow> u32"
  SIMULATION :: bool

text \<open>
  The globals the code touches: the last-error slot, \<^verbatim>\<open>ara_vid\<close>, \<^verbatim>\<open>ara_pid\<close>, the
  static \<^verbatim>\<open>ims_value\<close>, the context of the hash primitive, and the log of calls.
\<close>

record bootrom =
  last_error :: bre_error
  ara_vid :: u32
  ara_pid :: u32
  ims_value :: "byte list"
  hash_ctx :: "byte list"
  calls :: "call list"

text \<open>
  \<^verbatim>\<open>union large_uint { struct { uint32_t low; uint32_t high; }; uint64_t quad; }\<close>:
  the two halves, and the 64-bit value that overlays them on the little-endian target.
\<close>

record large_uint =
  low :: u32
  high :: u32

definition quad :: "large_uint \<Rightarrow> 64 word" where
  "quad u = ucast (low u) OR push_bit 32 (ucast (high u))"

definition IMS_MEANINGFUL_LENGTH :: nat where
  "IMS_MEANINGFUL_LENGTH = 32"

text \<open>
  Modelled from the spec: \<^verbatim>\<open>HASH_DIGEST_SIZE\<close> of \<^verbatim>\<open>crypto.h\<close>, the size in bytes of the
  digest (the code's comment names the hash: sha256).
\<close>

definition HASH_DIGEST_SIZE :: nat where
  "HASH_DIGEST_SIZE = 32"

text \<open>
  Modelled from the spec: \<^verbatim>\<open>set_last_error\<close> and \<^verbatim>\<open>get_last_error\<close> of the diagnostics
  collaborator write and read the last-error slot.
\<close>

definition set_last_error :: "bre_error \<Rightarrow> bootrom \<Rightarrow> bootrom" where
  "set_last_error e s = s\<lparr>last_error := e\<rparr>"

definition get_last_error :: "bootrom \<Rightarrow> bre_error" where
  "get_last_error s = last_error s"

text \<open>Modelled from the spec: the register accessors of the peripheral collaborator.\<close>

definition tsb_get_eccerror :: "chip \<Rightarrow> bootrom \<Rightarrow> u32 \<times> bootrom" where
  "tsb_get_eccerror c s = (eccerror c, s\<lparr>calls := calls s @ [Get_eccerror]\<rparr>)"

definition tsb_get_vid :: "chip \<Rightarrow> bootrom \<Rightarrow> u32 \<times> bootrom" where
  "tsb_get_vid c s = (vid c, s\<lparr>calls := calls s @ [Get_vid]\<rparr>)"

definition tsb_get_pid :: "chip \<Rightarrow> bootrom \<Rightarrow> u32 \<times> bootrom" where
  "tsb_get_pid c s = (pid c, s\<lparr>calls := calls s @ [Get_pid]\<rparr>)"

text \<open>\<^verbatim>\<open>tsb_get_ims(ims_value, n)\<close> fills the first \<open>n\<close> bytes of the static buffer.\<close>

definition tsb_get_ims :: "chip \<Rightarrow> nat \<Rightarrow> bootrom \<Rightarrow> bootrom" where
  "tsb_get_ims c n s =
     s\<lparr>ims_value := map (ims c) [0..<n] @ drop n (ims_value s),
       calls := calls s @ [Get_ims n]\<rparr>"

definition chip_unipro_attr_write :: "chip \<Rightarrow> dme_attr \<Rightarrow> u32 \<Rightarrow> bootrom \<Rightarrow> u32 \<times> bootrom" where
  "chip_unipro_attr_write c a v s = (attr_write c a v, s\<lparr>calls := calls s @ [Attr_write a v]\<rparr>)"

text \<open>
  Modelled from the spec: the hash primitive, ``start a fresh hash context, feed it bytes
  incrementally (any chunking), finalize to a fixed-size digest''. \<^verbatim>\<open>hash_update(data, n)\<close>
  feeds the first \<open>n\<close> bytes at \<open>data\<close>: the code passes \<^verbatim>\<open>HASH_DIGEST_SIZE\<close> for an
  \<^verbatim>\<open>unsigned char [HASH_DIGEST_SIZE]\<close>, so the length counts bytes.
\<close>

definition hash_start :: "bootrom \<Rightarrow> bootrom" where
  "hash_start s = s\<lparr>hash_ctx := [], calls := calls s @ [Hash_start]\<rparr>"

definition hash_update :: "byte list \<Rightarrow> nat \<Rightarrow> bootrom \<Rightarrow> bootrom" where
  "hash_update data n s =
     s\<lparr>hash_ctx := hash_ctx s @ take n data, calls := calls s @ [Hash_update (take n data)]\<rparr>"

definition hash_final :: "chip \<Rightarrow> bootrom \<Rightarrow> byte list \<times> bootrom" where
  "hash_final c s = (take HASH_DIGEST_SIZE (hash c (hash_ctx s)), s\<lparr>calls := calls s @ [Hash_final]\<rparr>)"

section \<open>get\_endpoint\_id\<close>

text \<open>
  The block under \<^verbatim>\<open>#else\<close> (the build without \<^verbatim>\<open>_SIMULATION\<close>), statement by
  statement. The two \<^verbatim>\<open>for\<close> loops run a fixed number of times and are folds over their
  index. \<^verbatim>\<open>memcpy(endpoint_id, EP_UID, 8)\<close> puts bytes 0..3 under \<open>low\<close> and bytes 4..7
  under \<open>high\<close>.
\<close>

definition compute_ep_uid :: "chip \<Rightarrow> bootrom \<Rightarrow> large_uint \<times> bootrom" where
  "compute_ep_uid c s0 =
     (let s = hash_start s0;
          s = fold (\<lambda>i s. let temp = load32 (ims_value s) (4 * i) XOR 0x3d3d3d3d
                          in hash_update (store32 temp) 1 s) [0..<4] s;
          (Y1, s) = hash_final c s;
          s = hash_start s;
          s = hash_update Y1 HASH_DIGEST_SIZE s;
          temp = (0x01010101 :: u32);
          s = fold (\<lambda>i s. hash_update (store32 temp) 1 s) [0..<8] s;
          (Z0, s) = hash_final c s;
          s = hash_start s;
          s = hash_update Z0 HASH_DIGEST_SIZE s;
          (EP_UID, s) = hash_final c s
      in (\<lparr>low = load32 EP_UID 0, high = load32 EP_UID 4\<rparr>, s))"

text \<open>The result is the triple of the returned flag, \<^verbatim>\<open>*endpoint_id\<close> and the globals.\<close>

definition get_endpoint_id :: "chip \<Rightarrow> bootrom \<Rightarrow> bool \<times> large_uint \<times> bootrom" where
  "get_endpoint_id c s0 =
     (let have_endpoint_id = False;
          endpoint_id = \<lparr>low = 0, high = 0\<rparr>;
          s = tsb_get_ims c IMS_MEANINGFUL_LENGTH s0
      in if \<not> is_buf_const (ims_value s) IMS_MEANINGFUL_LENGTH 0 then
           if \<not> valid_hamming_weight (ims_value s) (int IMS_MEANINGFUL_LENGTH) then
             (have_endpoint_id, endpoint_id, set_last_error BRE_EFUSE_BAD_IMS s)
           else if SIMULATION c then
             (True, \<lparr>low = 0x12345678, high = 0x9ABCDEF0\<rparr>, s)
           else
             (case compute_ep_uid c s of (endpoint_id, s) \<Rightarrow> (True, endpoint_id, s))
         else (have_endpoint_id, endpoint_id, s))"

section \<open>efuse\_init\<close>

text \<open>
  The result is the returned \<^verbatim>\<open>int\<close> and the globals. The identity words are validated
  through \<^verbatim>\<open>(uint8_t *)&ara_vid\<close> with \<^verbatim>\<open>sizeof(ara_vid)\<close>, that is over their four
  bytes in memory. Debug output is left out.
\<close>

definition efuse_init :: "chip \<Rightarrow> bootrom \<Rightarrow> int \<times> bootrom" where
  "efuse_init c s0 =
     (case tsb_get_eccerror c s0 of (register_val, s) \<Rightarrow>
      if register_val AND TSB_ECCERROR_ECC_ERROR c \<noteq> 0 then
        (- 1, set_last_error BRE_EFUSE_ECC s)
      else
        case tsb_get_vid c s of (v, s) \<Rightarrow>
        let s = s\<lparr>ara_vid := v\<rparr> in
        if \<not> valid_hamming_weight (store32 (ara_vid s)) 4 then
          (- 1, set_last_error BRE_EFUSE_BAD_ARA_VID s)
        else
          case tsb_get_pid c s of (v, s) \<Rightarrow>
          let s = s\<lparr>ara_pid := v\<rparr> in
          if \<not> valid_hamming_weight (store32 (ara_pid s)) 4 then
            (- 1, set_last_error BRE_EFUSE_BAD_ARA_PID s)
          else
            case get_endpoint_id c s of (have, endpoint_id, s) \<Rightarrow>
            if \<not> have then
              (if get_last_error s \<noteq> BRE_OK then (- 1, s) else (0, s))
            else
              case chip_unipro_attr_write c DME_DDBL2_ENDPOINTID_L (low endpoint_id) s of
                (urc, s) \<Rightarrow>
              if urc \<noteq> 0 then (- 1, set_last_error BRE_EFUSE_ENDPOINT_ID_WRITE s)
              else
                case chip_unipro_attr_write c DME_DDBL2_ENDPOINTID_H (high endpoint_id) s of
                  (urc, s) \<Rightarrow>
                if urc \<noteq> 0 then (- 1, set_last_error BRE_EFUSE_ENDPOINT_ID_WRITE s)
                else (0, s))"

section \<open>The derivation as the specification words it\<close>

text \<open>
  The three-session chain of the specification (and of the comment in the code), for a
  digest function \<open>H\<close>: Y1 = H(secret[0:16] XOR 16 bytes of 0x3D),
  Z0 = H(Y1 || 32 bytes of 0x01), EP\_UID = H(Z0), and the first eight bytes of EP\_UID as
  the low and high halves.
\<close>

definition ep_uid_chain :: "(byte list \<Rightarrow> byte list) \<Rightarrow> byte list \<Rightarrow> large_uint" where
  "ep_uid_chain H secret =
     (let Y1 = H (map (\<lambda>b. b XOR 0x3D) (take 16 secret));
          Z0 = H (Y1 @ replicate 32 0x01);
          EP_UID = H Z0
      in \<lparr>low = load32 EP_UID 0, high = load32 EP_UID 4\<rparr>)"

section \<open>Auxiliary definitions for the proofs\<close>

text \<open>
  The first three steps of \<open>ones32\<close> act on each byte of the chunk separately: they
  add neighbouring bits, then neighbouring pairs, then the two nibbles.
\<close>

definition pairs8 :: "byte \<Rightarrow> byte" where
  "pairs8 x = (x AND 0x55) + (drop_bit 1 x AND 0x55)"

definition nibbles8 :: "byte \<Rightarrow> byte" where
  "nibbles8 x = (x AND 0x33) + (drop_bit 2 x AND 0x33)"

definition halves8 :: "byte \<Rightarrow> byte" where
  "halves8 x = (x AND 0x0f) + (drop_bit 4 x AND 0x0f)"

text \<open>
  The bytes that the first hash session of \<open>compute_ep_uid\<close> is fed from a buffer, and
  the three digests that follow from them, for a digest function \<open>H\<close>.
\<close>

definition fed1 :: "byte list \<Rightarrow> byte list" where
  "fed1 buf = [buf ! 0 XOR 0x3d, buf ! 4 XOR 0x3d, buf ! 8 XOR 0x3d, buf ! 12 XOR 0x3d]"

definition code_Y1 :: "(byte list \<Rightarrow> byte list) \<Rightarrow> byte list \<Rightarrow> byte list" where
  "code_Y1 H buf = take 32 (H (fed1 buf))"

definition code_Z0 :: "(byte list \<Rightarrow> byte list) \<Rightarrow> byte list \<Rightarrow> byte list" where
  "code_Z0 H buf = take 32 (H (code_Y1 H buf @ replicate 8 1))"

definition code_EP_UID :: "(byte list \<Rightarrow> byte list) \<Rightarrow> byte list \<Rightarrow> byte list" where
  "code_EP_UID H buf = take 32 (H (code_Z0 H buf))"

section \<open>Example parts\<close>

text \<open>
  Concrete inputs for the worked examples. \<open>pad_hash\<close> stands in for the digest function
  there: it returns the first 32 bytes of what it is fed, padded with zeros. It is not the
  hash of the boot ROM; the theorems hold for every digest function, and the examples only
  need one that is a closed term. \<open>sample_chip\<close> has no ECC error, a balanced vendor ID,
  an unset product ID and a secret of sixteen bytes 0xFF followed by zeros (128 bits set);
  \<open>boot0\<close> is the state at entry, with the last error OK.
\<close>

definition pad_hash :: "byte list \<Rightarrow> byte list" where
  "pad_hash bs = take 32 (bs @ replicate 32 0)"

definition sample_chip :: chip where
  "sample_chip =
     \<lparr>TSB_ECCERROR_ECC_ERROR = 1, eccerror = 0, vid = 0x0000FFFF, pid = 0,
      ims = (\<lambda>i. if i < 16 then 0xFF else 0), hash = pad_hash,
      attr_write = (\<lambda>a v. 0), SIMULATION = False\<rparr>"

definition boot0 :: bootrom where
  "boot0 = \<lparr>last_error = BRE_OK, ara_vid = 0, ara_pid = 0, ims_value = replicate 35 0,
            hash_ctx = [], calls = []\<rparr>"

text \<open>
  A secret as the fuse holds it (by byte index) with bit \<open>k\<close> of byte \<open>j\<close> flipped.
\<close>

definition flip_secret :: "(nat \<Rightarrow> byte) \<Rightarrow> nat \<Rightarrow> nat \<Rightarrow> nat \<Rightarrow> byte" where
  "flip_secret f j k = f(j := f j XOR push_bit k 1)"

text \<open>
  Two secrets with 128 set bits each: every byte 0x0F, and the same with byte 16 changed
  to 0x1E (bit 0 cleared, bit 4 set).
\<close>

definition secret_a :: "nat \<Rightarrow> byte" where
  "secret_a = (\<lambda>i. 0x0F)"

definition secret_b :: "nat \<Rightarrow> byte" where
  "secret_b = secret_a(16 := 0x1E)"

declare count_ones_loop32.simps [simp del] count_ones_loop8.simps [simp del]
  is_buf_const_loop32.simps [simp del] is_buf_const_loop8.simps [simp del]

chapter \<open>Properties\<close>

section \<open>Words made of four bytes\<close>

lemma bit_byte_less: "bit (a::byte) n \<Longrightarrow> n < 8"
  using bit_imp_le_length[of a n] by simp

lemma bit_le32:
  "bit (le32 a b c d) n \<longleftrightarrow>
     (if n < 8 then bit a n else if n < 16 then bit b (n - 8)
      else if n < 24 then bit c (n - 16) else bit d (n - 24))"
  by (auto simp: le32_def bit_simps dest: bit_byte_less)

lemma le32_sum:
  "le32 a b c d = ucast a + 256 * ucast b + 65536 * ucast c + 16777216 * ucast d"
proof -
  have 1: "push_bit 16 (ucast c :: u32) + push_bit 24 (ucast d)
         = push_bit 16 (ucast c) OR push_bit 24 (ucast d)"
    by (rule disjunctive_add) (auto simp: bit_simps dest: bit_byte_less)
  have 2: "push_bit 8 (ucast b :: u32) + (push_bit 16 (ucast c) OR push_bit 24 (ucast d))
         = push_bit 8 (ucast b) OR push_bit 16 (ucast c) OR push_bit 24 (ucast d)"
    by (rule disjunctive_add) (auto simp: bit_simps dest: bit_byte_less)
  have 3: "(ucast a :: u32)
           + (push_bit 8 (ucast b) OR push_bit 16 (ucast c) OR push_bit 24 (ucast d))
         = ucast a OR push_bit 8 (ucast b) OR push_bit 16 (ucast c) OR push_bit 24 (ucast d)"
    by (rule disjunctive_add) (auto simp: bit_simps dest: bit_byte_less)
  have "le32 a b c d
      = ucast a + (push_bit 8 (ucast b) + (push_bit 16 (ucast c) + push_bit 24 (ucast d)))"
    by (simp only: le32_def 1 2 3)
  then show ?thesis
    by (simp add: push_bit_eq_mult)
qed

lemma ucast_add_nocarry:
  fixes a b :: byte
  assumes "unat a + unat b < 256"
  shows "(ucast (a + b) :: u32) = ucast a + ucast b"
proof -
  have "unat (a + b) = unat a + unat b"
    using assms unat_add_lem[of a b] by simp
  moreover have "unat (ucast a + ucast b :: u32) = unat a + unat b"
    using assms unat_add_lem[of "ucast a :: u32" "ucast b"]
    by (simp add: unsigned_ucast_eq take_bit_eq_mod)
  ultimately show ?thesis
    using assms by (simp add: word_unat_eq_iff unsigned_ucast_eq take_bit_eq_mod)
qed

lemma le32_add:
  assumes "unat a + unat a' < 256" "unat b + unat b' < 256"
          "unat c + unat c' < 256" "unat d + unat d' < 256"
  shows "le32 a b c d + le32 a' b' c' d' = le32 (a + a') (b + b') (c + c') (d + d')"
  by (simp add: le32_sum ucast_add_nocarry assms algebra_simps)

lemma le32_and:
  "le32 a b c d AND le32 e f g h = le32 (a AND e) (b AND f) (c AND g) (d AND h)"
  by (rule bit_eqI) (simp add: bit_le32 bit_and_iff)

lemma le32_drop_and:
  assumes "j \<le> 8" "take_bit (8 - j) m = m"
  shows "drop_bit j (le32 a b c d) AND le32 m m m m
       = le32 (drop_bit j a AND m) (drop_bit j b AND m) (drop_bit j c AND m) (drop_bit j d AND m)"
proof -
  have "bit (take_bit (8 - j) m) n \<Longrightarrow> n < 8 - j" for n
    by (simp add: bit_take_bit_iff)
  then have m: "bit m n \<Longrightarrow> n < 8 - j" for n
    by (simp only: assms(2))
  show ?thesis
    apply (rule bit_eqI)
    apply (simp add: bit_le32 bit_and_iff bit_drop_bit_eq)
    using assms(1) apply (auto dest: bit_byte_less m)
    done
qed

lemma le32_drop8: "drop_bit 8 (le32 a b c d) = le32 b c d 0"
  by (rule bit_eqI) (auto simp add: bit_le32 bit_simps dest: bit_byte_less)

lemma le32_drop16: "drop_bit 16 (le32 a b c d) = le32 c d 0 0"
  by (rule bit_eqI) (auto simp add: bit_le32 bit_simps dest: bit_byte_less)

lemma le32_drop24: "drop_bit 24 (le32 a b c d) = le32 d 0 0 0"
  by (rule bit_eqI) (auto simp add: bit_le32 bit_simps dest: bit_byte_less)

lemma ucast_le32: "ucast (le32 a b c d) = a"
  by (rule bit_eqI) (auto simp add: bit_le32 bit_simps dest: bit_byte_less)

lemma le32_inject [simp]:
  "le32 a b c d = le32 e f g h \<longleftrightarrow> a = e \<and> b = f \<and> c = g \<and> d = h"
proof
  assume eq: "le32 a b c d = le32 e f g h"
  have "(ucast (le32 a b c d) :: byte) = ucast (le32 e f g h)"
       "(ucast (drop_bit 8 (le32 a b c d)) :: byte) = ucast (drop_bit 8 (le32 e f g h))"
       "(ucast (drop_bit 16 (le32 a b c d)) :: byte) = ucast (drop_bit 16 (le32 e f g h))"
       "(ucast (drop_bit 24 (le32 a b c d)) :: byte) = ucast (drop_bit 24 (le32 e f g h))"
    by (simp_all only: eq)
  then show "a = e \<and> b = f \<and> c = g \<and> d = h"
    by (simp only: le32_drop8 le32_drop16 le32_drop24 ucast_le32)
qed simp

lemma store32_le32 [simp]: "store32 (le32 a b c d) = [a, b, c, d]"
  by (simp add: store32_def le32_drop8 le32_drop16 le32_drop24 ucast_le32)

lemma le32_bytes:
  "le32 (ucast x) (ucast (drop_bit 8 x)) (ucast (drop_bit 16 x)) (ucast (drop_bit 24 x)) = x"
  by (rule bit_eqI) (auto simp add: bit_le32 bit_simps)

lemma load32_store32 [simp]: "load32 (store32 w) 0 = w"
  by (simp add: load32_def store32_def le32_bytes)

lemma byte_and_ff: "(x::byte) AND 0xff = x"
proof -
  have "(0xff::byte) = - 1" by simp
  then show ?thesis by (simp only: word_bw_comms word_and_max bit.conj_one_right)
qed

lemma byte_and_bound: "unat (x AND m) \<le> unat (m::byte)"
  by (simp add: word_and_le1 word_le_nat_alt[symmetric])

section \<open>Counting the bits of one byte and of one chunk\<close>

text \<open>A property of all 256 bytes follows from its instances, which are evaluated.\<close>

lemma byte_all:
  assumes "list_all (\<lambda>n. P (of_nat n :: byte)) [0..<256]"
  shows "P b"
proof -
  have "unat b < 256" using unsigned_less[of b, where 'a=nat] by simp
  then have "unat b \<in> set [0..<256]" by simp
  with assms have "P (of_nat (unat b))" by (simp only: list_all_iff)
  then show ?thesis by simp
qed

lemma ones8_correct: "unat (ones8 b) = pop_count b"
  by (rule byte_all[where b=b]) code_simp

lemma fields8_correct: "unat (halves8 (nibbles8 (pairs8 b))) = pop_count b"
  by (rule byte_all[where b=b]) code_simp

lemma pop_count_le: "pop_count b \<le> 8"
  unfolding pop_count_def using length_filter_le[of "bit b" "[0..<8]"] by simp

lemma mask32_1s: "(0x55555555::u32) = le32 0x55 0x55 0x55 0x55" by (simp add: le32_def)
lemma mask32_2s: "(0x33333333::u32) = le32 0x33 0x33 0x33 0x33" by (simp add: le32_def)
lemma mask32_4s: "(0x0f0f0f0f::u32) = le32 0x0f 0x0f 0x0f 0x0f" by (simp add: le32_def)
lemma mask32_8s: "(0x00ff00ff::u32) = le32 0xff 0 0xff 0" by (simp add: le32_def)
lemma mask32_16s: "(0x0000ffff::u32) = le32 0xff 0xff 0 0" by (simp add: le32_def)

lemma ones32_step1:
  "(le32 a b c d AND 0x55555555) + (drop_bit 1 (le32 a b c d) AND 0x55555555)
    = le32 (pairs8 a) (pairs8 b) (pairs8 c) (pairs8 d)"
proof -
  have le: "unat (x AND 0x55) + unat (y AND 0x55) < 256" for x y :: byte
    using byte_and_bound[of x "0x55"] byte_and_bound[of y "0x55"] by simp
  show ?thesis
    unfolding mask32_1s le32_and pairs8_def
    by (subst le32_drop_and) (simp_all add: le32_add le)
qed

lemma ones32_step2:
  "(le32 a b c d AND 0x33333333) + (drop_bit 2 (le32 a b c d) AND 0x33333333)
    = le32 (nibbles8 a) (nibbles8 b) (nibbles8 c) (nibbles8 d)"
proof -
  have le: "unat (x AND 0x33) + unat (y AND 0x33) < 256" for x y :: byte
    using byte_and_bound[of x "0x33"] byte_and_bound[of y "0x33"] by simp
  show ?thesis
    unfolding mask32_2s le32_and nibbles8_def
    by (subst le32_drop_and) (simp_all add: le32_add le)
qed

lemma ones32_step3:
  "(le32 a b c d AND 0x0f0f0f0f) + (drop_bit 4 (le32 a b c d) AND 0x0f0f0f0f)
    = le32 (halves8 a) (halves8 b) (halves8 c) (halves8 d)"
proof -
  have le: "unat (x AND 0x0f) + unat (y AND 0x0f) < 256" for x y :: byte
    using byte_and_bound[of x "0x0f"] byte_and_bound[of y "0x0f"] by simp
  show ?thesis
    unfolding mask32_4s le32_and halves8_def
    by (subst le32_drop_and) (simp_all add: le32_add le)
qed

lemma ones32_step4:
  assumes "unat a + unat b < 256" "unat c + unat d < 256"
  shows "(le32 a b c d AND 0x00ff00ff) + (drop_bit 8 (le32 a b c d) AND 0x00ff00ff)
    = le32 (a + b) 0 (c + d) 0"
  unfolding mask32_8s le32_drop8 le32_and using assms by (simp add: le32_add byte_and_ff)

lemma ones32_step5:
  assumes "unat s + unat t < 256"
  shows "(le32 s 0 t 0 + drop_bit 16 (le32 s 0 t 0)) AND 0x0000ffff = ucast (s + t)"
proof -
  have "(le32 s 0 t 0 + drop_bit 16 (le32 s 0 t 0)) AND 0x0000ffff = le32 (s + t) 0 0 0"
    unfolding mask32_16s le32_drop16 using assms by (simp add: le32_add le32_and byte_and_ff)
  then show ?thesis by (simp add: le32_def)
qed

lemma ones32_le32:
  "unat (ones32 (le32 a b c d)) = pop_count a + pop_count b + pop_count c + pop_count d"
proof -
  define p where "p = (\<lambda>x. halves8 (nibbles8 (pairs8 x)))"
  have p: "unat (p x) = pop_count x" for x by (simp add: p_def fields8_correct)
  have le: "unat (p x) \<le> 8" for x using pop_count_le[of x] by (simp add: p)
  have s1: "unat (p a) + unat (p b) < 256" "unat (p c) + unat (p d) < 256"
    using le[of a] le[of b] le[of c] le[of d] by simp_all
  have ab: "unat (p a + p b) = unat (p a) + unat (p b)"
    using s1(1) unat_add_lem[of "p a" "p b"] by simp
  have cd: "unat (p c + p d) = unat (p c) + unat (p d)"
    using s1(2) unat_add_lem[of "p c" "p d"] by simp
  have s2: "unat (p a + p b) + unat (p c + p d) < 256"
    using le[of a] le[of b] le[of c] le[of d] by (simp add: ab cd)
  have abcd: "unat (p a + p b + (p c + p d)) = unat (p a + p b) + unat (p c + p d)"
    using s2 unat_add_lem[of "p a + p b" "p c + p d"] by simp
  have "ones32 (le32 a b c d) = ucast (p a + p b + (p c + p d))"
    unfolding ones32_def Let_def ones32_step1 ones32_step2 ones32_step3
    using ones32_step4[OF s1[unfolded p_def]] ones32_step5[OF s2[unfolded p_def]]
    by (simp only: p_def)
  then show ?thesis
    using pop_count_le[of a] pop_count_le[of b] pop_count_le[of c] pop_count_le[of d]
    by (simp add: unsigned_ucast_eq abcd ab cd p take_bit_eq_mod)
qed

section \<open>count\_ones counts the set bits\<close>

lemma sdiv_exact: "(len * 8) sdiv 2 = len * (4::int)"
  by (simp add: signed_divide_int_def sgn_mult abs_mult mult_sgn_abs)

lemma int32_times_8:
  assumes "- (2 ^ 28) \<le> len" "len < 2 ^ 28"
  shows "int32 (len * 8) = len * 8"
  unfolding int32_def using assms by (intro signed_take_bit_int_eq_self) simp_all

lemma bits_set_replicate: "bits_set (replicate n b) = n * pop_count b"
  by (induction n) (simp_all add: bits_set_def)

lemma sint_of_nat_small: "n < 2 ^ 31 \<Longrightarrow> sint (of_nat n :: u32) = int n"
  by (simp add: signed_of_nat signed_take_bit_int_eq_self)

lemma take4_drop: "i + 4 \<le> length buf \<Longrightarrow>
   take (4 + n) (drop i buf) = buf ! i # buf ! (i + 1) # buf ! (i + 2) # buf ! (i + 3) # take n (drop (i + 4) buf)"
  by (simp add: Cons_nth_drop_Suc[symmetric] numeral_eq_Suc)

lemma bits_set_append: "bits_set (xs @ ys) = bits_set xs + bits_set ys"
  by (simp add: bits_set_def)

lemma bits_set_le: "bits_set bs \<le> 8 * length bs"
proof (induction bs)
  case Nil
  show ?case by (simp add: bits_set_def)
next
  case (Cons b bs)
  with pop_count_le[of b] show ?case by (simp add: bits_set_def)
qed

lemma ones32_load32:
  "ones32 (load32 buf i) = of_nat (bits_set [buf ! i, buf ! (i + 1), buf ! (i + 2), buf ! (i + 3)])"
proof -
  have "ones32 (load32 buf i) = of_nat (unat (ones32 (load32 buf i)))" by simp
  then show ?thesis
    by (simp only: load32_def ones32_le32) (simp add: bits_set_def)
qed

lemma count_ones_loop32_correct:
  assumes "0 \<le> len" "i + nat len \<le> length buf"
  shows "count_ones_loop32 buf i len count =
           (i + 4 * (nat len div 4), len mod 4,
            count + of_nat (bits_set (take (4 * (nat len div 4)) (drop i buf))))"
  using assms
proof (induction buf i len count rule: count_ones_loop32.induct)
  case (1 buf i len count)
  show ?case
  proof (cases "len \<ge> 4")
    case False
    with "1.prems" have "nat len div 4 = 0" "len mod 4 = len" by simp_all
    with False show ?thesis
      by (subst count_ones_loop32.simps) (simp add: bits_set_def)
  next
    case True
    define k where "k = nat (len - 4) div 4"
    have k: "nat len div 4 = Suc k" using True by (simp add: k_def nat_diff_distrib')
    have m: "(len - 4) mod 4 = len mod 4" by (simp add: mod_diff_right_eq[symmetric])
    have i4: "i + 4 \<le> length buf" using True "1.prems" by simp
    have ih: "count_ones_loop32 buf (i + 4) (len - 4) (count + ones32 (load32 buf i)) =
           (i + 4 + 4 * k, len mod 4,
            count + ones32 (load32 buf i) + of_nat (bits_set (take (4 * k) (drop (i + 4) buf))))"
      using "1.IH"[OF True] True "1.prems" by (simp add: k_def m)
    have tk: "take (4 * Suc k) (drop i buf) =
        [buf ! i, buf ! (i + 1), buf ! (i + 2), buf ! (i + 3)] @ take (4 * k) (drop (i + 4) buf)"
      using take4_drop[OF i4, of "4 * k"] by simp
    have "count_ones_loop32 buf i len count =
            count_ones_loop32 buf (i + 4) (len - 4) (count + ones32 (load32 buf i))"
      using True by (subst count_ones_loop32.simps) simp
    also note ih
    also have "(i + 4 + 4 * k, len mod 4,
            count + ones32 (load32 buf i) + of_nat (bits_set (take (4 * k) (drop (i + 4) buf))))
         = (i + 4 * (nat len div 4), len mod 4,
            count + of_nat (bits_set (take (4 * (nat len div 4)) (drop i buf))))"
      unfolding k tk bits_set_append ones32_load32 by simp
    finally show ?thesis .
  qed
qed

lemma count_ones_loop8_correct:
  assumes "0 \<le> len" "i + nat len \<le> length buf"
  shows "count_ones_loop8 buf i len count = count + of_nat (bits_set (take (nat len) (drop i buf)))"
  using assms
proof (induction buf i len count rule: count_ones_loop8.induct)
  case (1 buf i len count)
  show ?case
  proof (cases "len > 0")
    case False
    with "1.prems" show ?thesis
      by (subst count_ones_loop8.simps) (simp add: bits_set_def)
  next
    case True
    have n: "nat len = Suc (nat (len - 1))" using True by simp
    have il: "i < length buf" using True "1.prems" by simp
    have ih: "count_ones_loop8 buf (i + 1) (len - 1) (count + ucast (ones8 (buf ! i))) =
            count + ucast (ones8 (buf ! i)) + of_nat (bits_set (take (nat (len - 1)) (drop (i + 1) buf)))"
      using "1.IH"[OF True] True "1.prems" by simp
    have "(ucast (ones8 (buf ! i)) :: u32) = of_nat (unat (ones8 (buf ! i)))" by simp
    then have o: "(ucast (ones8 (buf ! i)) :: u32) = of_nat (pop_count (buf ! i))"
      by (simp only: ones8_correct)
    have tk: "take (nat len) (drop i buf) = buf ! i # take (nat (len - 1)) (drop (i + 1) buf)"
      by (subst n) (simp add: Cons_nth_drop_Suc[symmetric] il)
    have "count_ones_loop8 buf i len count =
            count_ones_loop8 buf (i + 1) (len - 1) (count + ucast (ones8 (buf ! i)))"
      using True by (subst count_ones_loop8.simps) simp
    also note ih
    also have "count + ucast (ones8 (buf ! i))
                 + of_nat (bits_set (take (nat (len - 1)) (drop (i + 1) buf)))
             = count + of_nat (bits_set (take (nat len) (drop i buf)))"
      unfolding o tk by (simp add: bits_set_def)
    finally show ?thesis .
  qed
qed

lemma count_ones_word:
  assumes "0 \<le> len" "nat len \<le> length buf"
  shows "count_ones buf len = sint (of_nat (bits_set (take (nat len) buf)) :: u32)"
proof -
  define q where "q = 4 * (nat len div 4)"
  have r: "0 \<le> len mod 4" "nat (len mod 4) = nat len mod 4" using assms(1) by (simp_all add: nat_mod_distrib)
  have q: "q + nat len mod 4 = nat len" by (simp add: q_def)
  have 1: "count_ones_loop32 buf 0 len 0 = (q, len mod 4, of_nat (bits_set (take q buf)))"
    using count_ones_loop32_correct[of len 0 buf 0] assms by (simp add: q_def)
  have 2: "count_ones_loop8 buf q (len mod 4) c = c + of_nat (bits_set (take (nat len mod 4) (drop q buf)))" for c
    using count_ones_loop8_correct[of "len mod 4" q buf c] assms r q by simp
  have "take (nat len) buf = take q buf @ take (nat len mod 4) (drop q buf)"
    by (subst q[symmetric]) (simp only: take_add)
  then show ?thesis
    by (simp add: count_ones_def 1 2 bits_set_append)
qed

lemma count_ones_eq_bits_set:
  assumes "0 \<le> len" "nat len \<le> length buf" "len < 2 ^ 28"
  shows "count_ones buf len = int (bits_set (take (nat len) buf))"
proof -
  have "bits_set (take (nat len) buf) \<le> 8 * nat len"
    using bits_set_le[of "take (nat len) buf"] assms(2) by simp
  moreover have "8 * nat len < 2 ^ 31" using assms(1,3) by simp
  ultimately have b: "bits_set (take (nat len) buf) < 2 ^ 31" by linarith
  show ?thesis
    using count_ones_word[OF assms(1,2)] sint_of_nat_small[OF b] by simp
qed

lemma count_ones_replicate:
  assumes "0 \<le> len"
  shows "count_ones (replicate (nat len) b) len
           = sint (word_of_nat (nat len * pop_count b) :: u32)"
  using count_ones_word[of len "replicate (nat len) b"] assms
  by (simp add: bits_set_replicate)

text \<open>
  Claim C2 as stated fails for long buffers: \<^verbatim>\<open>count\<close> and the result are 32-bit
  \<^verbatim>\<open>int\<close>s, and a buffer of \<open>2 ^ 28\<close> bytes 0xFF has \<open>2 ^ 31\<close> set bits, one more
  than the largest \<^verbatim>\<open>int\<close>. There \<^verbatim>\<open>count_ones\<close> returns \<open>- (2 ^ 31)\<close>, which is neither
  the number of set bits nor in the range from 0 to \<open>len * 8\<close>.
\<close>

theorem count_ones_overflow_counterexample:
  "count_ones (replicate (2 ^ 28) 0xFF) (2 ^ 28) = - (2 ^ 31)
   \<and> bits_set (replicate (2 ^ 28) 0xFF) = 2 ^ 31"
proof -
  define n :: nat where "n = 2 ^ 28"
  have l: "(2::int) ^ 28 = int n" by (simp add: n_def)
  have p: "pop_count 0xFF = 8" by code_simp
  have "count_ones (replicate n 0xFF) (int n) = sint (word_of_nat (n * pop_count 0xFF) :: u32)"
    using count_ones_replicate[of "int n" "0xFF"] by simp
  also have "\<dots> = - (2 ^ 31)" unfolding p by (simp add: n_def)
  finally have 1: "count_ones (replicate n 0xFF) (int n) = - (2 ^ 31)" .
  have 2: "bits_set (replicate n 0xFF) = 2 ^ 31"
    unfolding bits_set_replicate p by (simp add: n_def)
  show ?thesis
    unfolding l n_def[symmetric] using 1 2 by (rule conjI)
qed

text \<open>
  Claim C2, amended. For every buffer that holds at least \<open>len\<close> bytes and every
  \<open>len\<close> with \<open>0 \<le> len < 2 ^ 28\<close> (the lengths for which \<open>len * 8\<close>, the largest
  count, is a value of \<^verbatim>\<open>int\<close>), \<^verbatim>\<open>count_ones(buf, len)\<close> is the number of set bits
  of the first \<open>len\<close> bytes, whatever part of them the word loop and the byte loop each
  take: it lies between 0 and \<open>len * 8\<close>, and it is 0 for \<open>len = 0\<close>.
\<close>

theorem count_ones_counts_set_bits:
  assumes "0 \<le> len" "nat len \<le> length buf" "len < 2 ^ 28"
  shows "count_ones buf len = int (bits_set (take (nat len) buf))
       \<and> 0 \<le> count_ones buf len \<and> count_ones buf len \<le> len * 8
       \<and> (len = 0 \<longrightarrow> count_ones buf len = 0)"
proof -
  have "bits_set (take (nat len) buf) \<le> 8 * nat len"
    using bits_set_le[of "take (nat len) buf"] assms(2) by simp
  then have c: "int (bits_set (take (nat len) buf)) \<le> len * 8"
    using assms(1) by linarith
  with count_ones_eq_bits_set[OF assms] show ?thesis
    by (auto simp: bits_set_def)
qed

theorem count_ones_counts_set_bits_witness:
  "(0::int) \<le> 5 \<and> nat 5 \<le> length [0xFF, 0x01, 0x80, 0x0F, 0xA5, 0xFF :: byte]
   \<and> (5::int) < 2 ^ 28
   \<and> count_ones [0xFF, 0x01, 0x80, 0x0F, 0xA5, 0xFF] 5 = 18"
proof -
  have b: "bits_set (take (nat 5) [0xFF, 0x01, 0x80, 0x0F, 0xA5, 0xFF]) = 18"
    by code_simp
  show ?thesis
    using count_ones_counts_set_bits[of 5 "[0xFF, 0x01, 0x80, 0x0F, 0xA5, 0xFF]"]
    by (simp only: b) simp
qed

section \<open>valid\_hamming\_weight and is\_buf\_const\<close>

lemma valid_hamming_weight_count:
  assumes "- (2 ^ 28) \<le> len" "len < 2 ^ 28"
  shows "valid_hamming_weight buf len \<longleftrightarrow>
           count_ones buf len = 0 \<or> 2 * count_ones buf len = len * 8"
  by (auto simp add: valid_hamming_weight_def int32_times_8[OF assms] sdiv_exact)

lemma valid_hamming_weight_bits:
  assumes "0 \<le> len" "nat len \<le> length buf" "len < 2 ^ 28"
  shows "valid_hamming_weight buf len \<longleftrightarrow>
           bits_set (take (nat len) buf) = 0 \<or> bits_set (take (nat len) buf) = 4 * nat len"
proof -
  have "- (2 ^ 28) \<le> len" using assms(1) by simp
  from valid_hamming_weight_count[OF this assms(3)] count_ones_eq_bits_set[OF assms] assms(1)
  show ?thesis by auto
qed




lemma val32_le32:
  "(ucast (val::byte) OR push_bit 8 (ucast val)) OR push_bit 16 (ucast val OR push_bit 8 (ucast val))
     = le32 val val val val"
  by (rule bit_eqI) (auto simp add: bit_le32 bit_simps dest: bit_byte_less)

lemma is_buf_const_loop8_iff:
  "is_buf_const_loop8 buf i sz val \<longleftrightarrow> (\<forall>k < sz. buf ! (i + k) = val)"
proof (induction buf i sz val rule: is_buf_const_loop8.induct)
  case (1 buf i sz val)
  show ?case
  proof (cases "sz > 0")
    case False
    then show ?thesis by (subst is_buf_const_loop8.simps) simp
  next
    case True
    then obtain n where n: "sz = Suc n" by (cases sz) auto
    have split: "(\<forall>k<Suc n. buf ! (i + k) = val) \<longleftrightarrow>
                 buf ! i = val \<and> (\<forall>k<n. buf ! (i + 1 + k) = val)"
      by (auto simp: less_Suc_eq_0_disj)
    show ?thesis
    proof (cases "buf ! i = val")
      case False
      then show ?thesis unfolding n split
        by (subst is_buf_const_loop8.simps) simp
    next
      case eq: True
      have "is_buf_const_loop8 buf i sz val = is_buf_const_loop8 buf (i + 1) (sz - 1) val"
        using True eq by (subst is_buf_const_loop8.simps) simp
      also have "\<dots> \<longleftrightarrow> (\<forall>k < sz - 1. buf ! (i + 1 + k) = val)"
        using "1.IH"[OF True] eq by simp
      finally show ?thesis unfolding n split using eq by simp
    qed
  qed
qed

lemma all_less_4_split:
  assumes "4 < (sz::nat)"
  shows "(\<forall>k < sz. P k) \<longleftrightarrow> P 0 \<and> P 1 \<and> P 2 \<and> P 3 \<and> (\<forall>k < sz - 4. P (4 + k))"
proof
  assume a: "\<forall>k < sz. P k"
  with assms show "P 0 \<and> P 1 \<and> P 2 \<and> P 3 \<and> (\<forall>k < sz - 4. P (4 + k))" by auto
next
  assume b: "P 0 \<and> P 1 \<and> P 2 \<and> P 3 \<and> (\<forall>k < sz - 4. P (4 + k))"
  show "\<forall>k < sz. P k"
  proof (intro allI impI)
    fix k assume k: "k < sz"
    consider "k = 0" | "k = 1" | "k = 2" | "k = 3" | "4 \<le> k" by linarith
    then show "P k"
    proof cases
      case 5
      then have "k - 4 < sz - 4" "4 + (k - 4) = k" using k by simp_all
      with b show ?thesis by metis
    qed (use b in auto)
  qed
qed

lemma is_buf_const_loops_iff:
  "(case is_buf_const_loop32 buf i sz (le32 val val val val) of
      None \<Rightarrow> False
    | Some (j, sz') \<Rightarrow> is_buf_const_loop8 buf j sz' val)
   \<longleftrightarrow> (\<forall>k < sz. buf ! (i + k) = val)"
proof (induction buf i sz "le32 val val val val" rule: is_buf_const_loop32.induct)
  case (1 buf i sz)
  show ?case
  proof (cases "sz > 4")
    case False
    then show ?thesis
      by (subst is_buf_const_loop32.simps) (simp add: is_buf_const_loop8_iff)
  next
    case True
    have w: "load32 buf i = le32 val val val val \<longleftrightarrow>
             buf ! (i + 0) = val \<and> buf ! (i + 1) = val \<and> buf ! (i + 2) = val \<and> buf ! (i + 3) = val"
      by (simp add: load32_def)
    show ?thesis
    proof (cases "load32 buf i = le32 val val val val")
      case False
      have "\<not> (\<forall>k < sz. buf ! (i + k) = val)"
      proof
        assume a: "\<forall>k < sz. buf ! (i + k) = val"
        have "buf ! (i + 0) = val" "buf ! (i + 1) = val" "buf ! (i + 2) = val" "buf ! (i + 3) = val"
          using a[rule_format, of 0] a[rule_format, of 1] a[rule_format, of 2]
            a[rule_format, of 3] True by simp_all
        with w False show False by simp
      qed
      moreover have "is_buf_const_loop32 buf i sz (le32 val val val val) = None"
        using True False by (subst is_buf_const_loop32.simps) simp
      ultimately show ?thesis by simp
    next
      case eq: True
      have "is_buf_const_loop32 buf i sz (le32 val val val val)
          = is_buf_const_loop32 buf (i + 4) (sz - 4) (le32 val val val val)"
        using True eq by (subst is_buf_const_loop32.simps) simp
      moreover have "(case is_buf_const_loop32 buf (i + 4) (sz - 4) (le32 val val val val) of
                None \<Rightarrow> False | Some (j, sz') \<Rightarrow> is_buf_const_loop8 buf j sz' val)
            \<longleftrightarrow> (\<forall>k < sz - 4. buf ! (i + 4 + k) = val)"
        using "1.hyps"[OF True] eq by simp
      ultimately show ?thesis
        unfolding all_less_4_split[OF True] using eq w by (simp add: add.assoc)
    qed
  qed
qed

lemma is_buf_const_le32:
  "is_buf_const buf sz val =
     (case is_buf_const_loop32 buf 0 sz (le32 val val val val) of
        None \<Rightarrow> False
      | Some (j, sz') \<Rightarrow> is_buf_const_loop8 buf j sz' val)"
  by (simp only: is_buf_const_def Let_def val32_le32)

lemma is_buf_const_nth:
  "is_buf_const buf sz val \<longleftrightarrow> (\<forall>i < sz. buf ! i = val)"
  using is_buf_const_loops_iff[where buf=buf and i=0 and sz=sz and val=val]
  by (simp add: is_buf_const_le32)

text \<open>
  Claim C4. For a buffer that holds at least \<open>sz\<close> bytes, \<^verbatim>\<open>is_buf_const(buf, sz, val)\<close>
  is true exactly when each of the first \<open>sz\<close> bytes equals \<open>val\<close>, wherever the word
  loop hands over to the byte loop; for \<open>sz = 0\<close> it is true.
\<close>

theorem is_buf_const_iff:
  assumes "sz \<le> length buf"
  shows "(is_buf_const buf sz val \<longleftrightarrow> (\<forall>i < sz. buf ! i = val))
       \<and> (sz = 0 \<longrightarrow> is_buf_const buf sz val)"
  using is_buf_const_nth[of buf sz val] by auto

theorem is_buf_const_iff_witness:
  "5 \<le> length [7, 7, 7, 7, 7, 9 :: byte]
   \<and> is_buf_const [7, 7, 7, 7, 7, 9] 5 7
   \<and> \<not> is_buf_const [7, 7, 7, 7, 7, 9] 6 7"
proof -
  have a: "\<forall>i < 5. [7, 7, 7, 7, 7, 9 :: byte] ! i = 7"
  proof (intro allI impI)
    fix i :: nat
    assume "i < 5"
    then consider "i = 0" | "i = 1" | "i = 2" | "i = 3" | "i = 4" by linarith
    then show "[7, 7, 7, 7, 7, 9 :: byte] ! i = 7" by cases simp_all
  qed
  have b: "\<not> (\<forall>i < 6. [7, 7, 7, 7, 7, 9 :: byte] ! i = 7)"
  proof
    assume c: "\<forall>i < 6. [7, 7, 7, 7, 7, 9 :: byte] ! i = 7"
    have "[7, 7, 7, 7, 7, 9 :: byte] ! 5 = 7" using c[rule_format, of 5] by simp
    then show False by simp
  qed
  show ?thesis
    using is_buf_const_iff[of 5 "[7, 7, 7, 7, 7, 9]" 7]
          is_buf_const_iff[of 6 "[7, 7, 7, 7, 7, 9]" 7] a b
    by simp
qed

section \<open>The hash sessions of the derivation\<close>

lemma le32_xor:
  "le32 a b c d XOR le32 e f g h = le32 (a XOR e) (b XOR f) (c XOR g) (d XOR h)"
  by (rule bit_eqI) (simp add: bit_le32 bit_xor_iff)

lemma xor_mask_3d: "(0x3d3d3d3d::u32) = le32 0x3d 0x3d 0x3d 0x3d" by (simp add: le32_def)
lemma ones_01: "(0x01010101::u32) = le32 1 1 1 1" by (simp add: le32_def)

lemma upt_0_4: "[0..<4] = [0, 1, 2, 3::nat]" by code_simp
lemma upt_0_8: "[0..<8] = [0, 1, 2, 3, 4, 5, 6, 7::nat]" by code_simp

lemma feed_ims_word:
  "take (Suc 0) (store32 (load32 buf i XOR 0x3d3d3d3d)) = [buf ! i XOR 0x3d]"
  by (simp add: load32_def xor_mask_3d le32_xor)

lemma feed_ones: "take (Suc 0) (store32 0x01010101) = [1]"
  by (simp add: ones_01)

lemma replicate_8: "replicate 8 x = [x, x, x, x, x, x, x, x]" by (simp add: numeral_eq_Suc)

lemma compute_ep_uid_eq:
  "compute_ep_uid c s =
     (\<lparr>low = load32 (code_EP_UID (hash c) (ims_value s)) 0,
       high = load32 (code_EP_UID (hash c) (ims_value s)) 4\<rparr>,
      s\<lparr>hash_ctx := code_Z0 (hash c) (ims_value s),
        calls := calls s @
          [Hash_start,
           Hash_update [ims_value s ! 0 XOR 0x3d], Hash_update [ims_value s ! 4 XOR 0x3d],
           Hash_update [ims_value s ! 8 XOR 0x3d], Hash_update [ims_value s ! 12 XOR 0x3d],
           Hash_final,
           Hash_start, Hash_update (code_Y1 (hash c) (ims_value s)),
           Hash_update [1], Hash_update [1], Hash_update [1], Hash_update [1],
           Hash_update [1], Hash_update [1], Hash_update [1], Hash_update [1],
           Hash_final,
           Hash_start, Hash_update (code_Z0 (hash c) (ims_value s)), Hash_final]\<rparr>)"
  by (simp add: compute_ep_uid_def upt_0_4 upt_0_8 hash_start_def hash_update_def hash_final_def
      feed_ims_word feed_ones HASH_DIGEST_SIZE_def code_EP_UID_def code_Z0_def code_Y1_def fed1_def
      Let_def replicate_8)

lemma compute_ep_uid_fst:
  "fst (compute_ep_uid c s) =
     \<lparr>low = load32 (code_EP_UID (hash c) (ims_value s)) 0,
      high = load32 (code_EP_UID (hash c) (ims_value s)) 4\<rparr>"
  by (simp add: compute_ep_uid_eq)

section \<open>get\_endpoint\_id\<close>

lemma ims_value_tsb_get_ims:
  "ims_value (tsb_get_ims c n s) = map (ims c) [0..<n] @ drop n (ims_value s)"
  by (simp add: tsb_get_ims_def)

lemma ims_read_nth: "i < n \<Longrightarrow> ims_value (tsb_get_ims c n s) ! i = ims c i"
  by (simp add: tsb_get_ims_def nth_append)

lemma ims_is_zero_iff:
  "is_buf_const (ims_value (tsb_get_ims c 32 s)) 32 0 \<longleftrightarrow> (\<forall>i < 32. ims c i = 0)"
  by (simp add: is_buf_const_nth ims_read_nth)

lemma ims_valid_iff:
  "valid_hamming_weight (ims_value (tsb_get_ims c 32 s)) 32 \<longleftrightarrow>
     bits_set (map (ims c) [0..<32]) = 0 \<or> bits_set (map (ims c) [0..<32]) = 128"
  using valid_hamming_weight_bits[of 32 "ims_value (tsb_get_ims c 32 s)"]
  by (simp add: ims_value_tsb_get_ims)

lemma get_endpoint_id_unset:
  assumes "\<forall>i < 32. ims c i = 0"
  shows "get_endpoint_id c s = (False, \<lparr>low = 0, high = 0\<rparr>, tsb_get_ims c 32 s)"
  using assms by (simp add: get_endpoint_id_def IMS_MEANINGFUL_LENGTH_def ims_is_zero_iff)

lemma get_endpoint_id_invalid:
  assumes "\<not> (\<forall>i < 32. ims c i = 0)"
    and "bits_set (map (ims c) [0..<32]) \<noteq> 0" "bits_set (map (ims c) [0..<32]) \<noteq> 128"
  shows "get_endpoint_id c s =
           (False, \<lparr>low = 0, high = 0\<rparr>, set_last_error BRE_EFUSE_BAD_IMS (tsb_get_ims c 32 s))"
  using assms
  by (simp add: get_endpoint_id_def IMS_MEANINGFUL_LENGTH_def ims_is_zero_iff ims_valid_iff)

lemma get_endpoint_id_valid:
  assumes "\<not> (\<forall>i < 32. ims c i = 0)" "bits_set (map (ims c) [0..<32]) = 128"
  shows "get_endpoint_id c s =
           (if SIMULATION c then (True, \<lparr>low = 0x12345678, high = 0x9ABCDEF0\<rparr>, tsb_get_ims c 32 s)
            else (True, compute_ep_uid c (tsb_get_ims c 32 s)))"
  using assms
  by (simp add: get_endpoint_id_def IMS_MEANINGFUL_LENGTH_def ims_is_zero_iff ims_valid_iff
        split: prod.split)

lemma get_endpoint_id_calls_valid:
  assumes "\<not> (\<forall>i < 32. ims c i = 0)" "bits_set (map (ims c) [0..<32]) = 128" "\<not> SIMULATION c"
  shows "get_endpoint_id c s = (True, compute_ep_uid c (tsb_get_ims c 32 s))"
  using get_endpoint_id_valid[OF assms(1,2)] assms(3) by simp

lemma map_ims_cong:
  assumes "\<forall>i < 32. ims c i = ims c' i"
  shows "map (ims c) [0..<32] = map (ims c') [0..<32]"
  using assms by (intro map_cong) simp_all

lemma sample_nonzero: "\<not> (\<forall>i < 32. ims sample_chip i = 0)"
proof
  assume a: "\<forall>i < 32. ims sample_chip i = 0"
  show False using a[rule_format, of 0] by (simp add: sample_chip_def)
qed

lemma sample_bits: "bits_set (map (ims sample_chip) [0..<32]) = 128"
  by code_simp

lemma vid_ffff_valid: "valid_hamming_weight (store32 0x0000FFFF) 4" by code_simp
lemma id_0_valid: "valid_hamming_weight (store32 0) 4" by code_simp
lemma id_7_invalid: "\<not> valid_hamming_weight (store32 7) 4" by code_simp

lemma ex_less_32: "\<exists>i::nat. i < 32"
  by (rule exI[of _ 0]) simp

lemma ones_bits: "bits_set (map (\<lambda>i. 1) [0..<32]) = 32" by code_simp

text \<open>
  Claim C10. \<^verbatim>\<open>get_endpoint_id\<close> sets \<^verbatim>\<open>endpoint_id->quad = 0\<close> before anything else, and
  only the derivation writes to it again. So whenever it returns false (no secret, or an
  invalid one) the caller's 64-bit field is exactly 0: both halves, and the quad that
  overlays them.
\<close>

theorem get_endpoint_id_false_zero:
  assumes "get_endpoint_id c s = (False, endpoint_id, s')"
  shows "endpoint_id = \<lparr>low = 0, high = 0\<rparr> \<and> quad endpoint_id = 0"
  using assms
  by (auto simp add: get_endpoint_id_def Let_def quad_def split: if_splits prod.splits)

theorem get_endpoint_id_false_zero_witness:
  "get_endpoint_id (sample_chip\<lparr>ims := \<lambda>i. 1\<rparr>) boot0
     = (False, \<lparr>low = 0, high = 0\<rparr>,
        set_last_error BRE_EFUSE_BAD_IMS (tsb_get_ims (sample_chip\<lparr>ims := \<lambda>i. 1\<rparr>) 32 boot0))
   \<and> quad \<lparr>low = 0, high = 0\<rparr> = 0"
proof -
  have g: "get_endpoint_id (sample_chip\<lparr>ims := \<lambda>i. 1\<rparr>) boot0
     = (False, \<lparr>low = 0, high = 0\<rparr>,
        set_last_error BRE_EFUSE_BAD_IMS (tsb_get_ims (sample_chip\<lparr>ims := \<lambda>i. 1\<rparr>) 32 boot0))"
    using get_endpoint_id_invalid[of "sample_chip\<lparr>ims := \<lambda>i. 1\<rparr>" boot0] ones_bits
      ex_less_32
    by simp
  from get_endpoint_id_false_zero[OF g] g show ?thesis by simp
qed

text \<open>
  Claim C1 says that for a non-zero secret of Hamming weight 128 the derived identifier is
  \<open>ep_uid_chain\<close> of the secret: Y1 the digest of sixteen XORed bytes, Z0 the digest of
  Y1 and thirty-two bytes 0x01. The code calls \<^verbatim>\<open>hash_update((unsigned char *)&temp, 1)\<close>
  in both loops, with a length of 1 where the word has 4 bytes. What it computes, for
  every digest function and every such secret, is stated here with the calls it makes:
  the first session is fed the four bytes \<open>ims 0\<close>, \<open>ims 4\<close>, \<open>ims 8\<close>, \<open>ims 12\<close>,
  each XOR 0x3D, the second session Y1 and eight bytes 0x01, the third Z0; the result is
  the first eight bytes of the last digest, bytes 0..3 under \<open>low\<close> and 4..7 under
  \<open>high\<close>.
\<close>

theorem get_endpoint_id_derives:
  assumes "\<not> (\<forall>i < 32. ims c i = 0)" "bits_set (map (ims c) [0..<32]) = 128" "\<not> SIMULATION c"
  shows "\<exists>s'. get_endpoint_id c s =
           (let Y1 = take 32 (hash c [ims c 0 XOR 0x3D, ims c 4 XOR 0x3D,
                                     ims c 8 XOR 0x3D, ims c 12 XOR 0x3D]);
                Z0 = take 32 (hash c (Y1 @ replicate 8 0x01));
                EP_UID = take 32 (hash c Z0)
            in (True, \<lparr>low = load32 EP_UID 0, high = load32 EP_UID 4\<rparr>, s'))
          \<and> calls s' = calls s @
               [Get_ims 32, Hash_start,
                Hash_update [ims c 0 XOR 0x3D], Hash_update [ims c 4 XOR 0x3D],
                Hash_update [ims c 8 XOR 0x3D], Hash_update [ims c 12 XOR 0x3D], Hash_final,
                Hash_start,
                Hash_update (take 32 (hash c [ims c 0 XOR 0x3D, ims c 4 XOR 0x3D,
                                                ims c 8 XOR 0x3D, ims c 12 XOR 0x3D]))] @
               replicate 8 (Hash_update [0x01]) @ [Hash_final] @
               [Hash_start,
                Hash_update (take 32 (hash c (take 32 (hash c [ims c 0 XOR 0x3D, ims c 4 XOR 0x3D,
                                                ims c 8 XOR 0x3D, ims c 12 XOR 0x3D]) @ replicate 8 0x01))),
                Hash_final]"
  unfolding get_endpoint_id_calls_valid[OF assms] compute_ep_uid_eq
  by (simp add: code_EP_UID_def code_Z0_def code_Y1_def fed1_def ims_read_nth Let_def
        tsb_get_ims_def nth_append replicate_8)

text \<open>
  On \<open>sample_chip\<close> the two differ: the code's identifier has the high half 0, the
  chain of the specification has it 0xC2C2C2C2.
\<close>

theorem get_endpoint_id_derives_witness:
  "fst (get_endpoint_id sample_chip boot0) = True
   \<and> fst (snd (get_endpoint_id sample_chip boot0)) = \<lparr>low = 0xC2C2C2C2, high = 0\<rparr>
   \<and> ep_uid_chain (hash sample_chip) (map (ims sample_chip) [0..<32])
       = \<lparr>low = 0xC2C2C2C2, high = 0xC2C2C2C2\<rparr>"
proof -
  have s: "\<not> SIMULATION sample_chip" by (simp add: sample_chip_def)
  have 1: "ims sample_chip 0 = 0xFF" "ims sample_chip 4 = 0xFF" "ims sample_chip 8 = 0xFF"
     "ims sample_chip 12 = 0xFF" "hash sample_chip = pad_hash"
    by (simp_all add: sample_chip_def)
  have 2: "load32 (take 32 (pad_hash (take 32 (pad_hash (take 32 (pad_hash [0xFF XOR 0x3D, 0xFF XOR 0x3D, 0xFF XOR 0x3D, 0xFF XOR 0x3D]) @ replicate 8 1))))) 0 = 0xC2C2C2C2"
    "load32 (take 32 (pad_hash (take 32 (pad_hash (take 32 (pad_hash [0xFF XOR 0x3D, 0xFF XOR 0x3D, 0xFF XOR 0x3D, 0xFF XOR 0x3D]) @ replicate 8 1))))) 4 = 0"
    by code_simp+
  have 3: "ep_uid_chain pad_hash (map (ims sample_chip) [0..<32])
       = \<lparr>low = 0xC2C2C2C2, high = 0xC2C2C2C2\<rparr>"
    by code_simp
  from get_endpoint_id_derives[OF sample_nonzero sample_bits s, of boot0]
  show ?thesis
    unfolding 1 Let_def using 2 3 by auto
qed

section \<open>Changing the secret\<close>

lemma length_filter_toggle:
  assumes "distinct xs" "k \<in> set xs"
  shows "length (filter (\<lambda>n. P n \<noteq> (n = k)) xs) = length (filter P xs) + 1
       \<or> length (filter (\<lambda>n. P n \<noteq> (n = k)) xs) + 1 = length (filter P xs)"
  using assms
proof (induction xs)
  case Nil
  then show ?case by simp
next
  case (Cons x xs)
  show ?case
  proof (cases "x = k")
    case True
    with Cons.prems have "k \<notin> set xs" by simp
    then have "filter (\<lambda>n. P n \<noteq> (n = k)) xs = filter P xs"
      by (intro filter_cong) auto
    with True show ?thesis by simp
  next
    case False
    with Cons.prems have "distinct xs" "k \<in> set xs" by simp_all
    from Cons.IH[OF this] False show ?thesis by auto
  qed
qed

lemma bit_flip_byte:
  assumes "n < 8"
  shows "bit ((b::byte) XOR push_bit k 1) n \<longleftrightarrow> (bit b n \<noteq> (n = k))"
  using assms by (auto simp add: bit_xor_iff bit_exp_iff)

lemma pop_count_flip:
  assumes "k < 8"
  shows "pop_count (b XOR push_bit k 1) = pop_count b + 1
       \<or> pop_count (b XOR push_bit k 1) + 1 = pop_count b"
proof -
  have "filter (bit (b XOR push_bit k 1)) [0..<8] = filter (\<lambda>n. bit b n \<noteq> (n = k)) [0..<8]"
  proof (rule filter_cong[OF refl])
    fix n :: nat
    assume "n \<in> set [0..<8]"
    then have "n < 8" by simp
    then show "bit (b XOR push_bit k 1) n = (bit b n \<noteq> (n = k))" by (rule bit_flip_byte)
  qed
  moreover have "distinct [0..<8::nat]" "k \<in> set [0..<8]" using assms by simp_all
  ultimately show ?thesis
    unfolding pop_count_def using length_filter_toggle[of "[0..<8]" k "bit b"] by simp
qed

lemma bits_set_update:
  "j < length xs \<Longrightarrow> bits_set (xs[j := v]) + pop_count (xs ! j) = bits_set xs + pop_count v"
proof (induction xs arbitrary: j)
  case Nil
  then show ?case by simp
next
  case (Cons x xs)
  show ?case
  proof (cases j)
    case 0
    then show ?thesis by (simp add: bits_set_def)
  next
    case (Suc m)
    with Cons.prems have "m < length xs" by simp
    from Cons.IH[OF this] Suc show ?thesis by (simp add: bits_set_def)
  qed
qed

lemma map_fun_upd_upt:
  "j < n \<Longrightarrow> map (f(j := v)) [0..<n] = (map f [0..<n])[j := v]"
  by (rule nth_equalityI) (auto simp: nth_list_update)

lemma pop_count_0: "pop_count 0 = 0" by code_simp

lemma bits_set_all_zero:
  "(\<forall>i < n. f i = 0) \<Longrightarrow> bits_set (map f [0..<n]) = 0"
  by (induction n) (simp_all add: bits_set_append pop_count_0 bits_set_def)

lemma bits_set_flip:
  assumes "bits_set (map f [0..<32]) = 128" "j < 32" "k < 8"
  shows "bits_set (map (flip_secret f j k) [0..<32]) = 127
       \<or> bits_set (map (flip_secret f j k) [0..<32]) = 129"
proof -
  have "bits_set ((map f [0..<32])[j := f j XOR push_bit k 1]) + pop_count (map f [0..<32] ! j)
        = bits_set (map f [0..<32]) + pop_count (f j XOR push_bit k 1)"
    using assms(2) by (intro bits_set_update) simp
  then have "bits_set (map (flip_secret f j k) [0..<32]) + pop_count (f j)
        = 128 + pop_count (f j XOR push_bit k 1)"
    using assms(1,2) by (simp add: flip_secret_def map_fun_upd_upt)
  with pop_count_flip[OF assms(3), of "f j"] show ?thesis by linarith
qed

lemma get_endpoint_id_flip:
  assumes "bits_set (map (ims c) [0..<32]) = 128" "j < 32" "k < 8"
  shows "get_endpoint_id (c\<lparr>ims := flip_secret (ims c) j k\<rparr>) s =
           (False, \<lparr>low = 0, high = 0\<rparr>,
            set_last_error BRE_EFUSE_BAD_IMS
              (tsb_get_ims (c\<lparr>ims := flip_secret (ims c) j k\<rparr>) 32 s))"
proof -
  let ?c = "c\<lparr>ims := flip_secret (ims c) j k\<rparr>"
  have b: "bits_set (map (ims ?c) [0..<32]) = 127 \<or> bits_set (map (ims ?c) [0..<32]) = 129"
    using bits_set_flip[OF assms] by simp
  have nz: "\<not> (\<forall>i < 32. ims ?c i = 0)"
  proof
    assume "\<forall>i < 32. ims ?c i = 0"
    from bits_set_all_zero[OF this] b show False by simp
  qed
  from b have "bits_set (map (ims ?c) [0..<32]) \<noteq> 0" "bits_set (map (ims ?c) [0..<32]) \<noteq> 128"
    by auto
  from get_endpoint_id_invalid[OF nz this] show ?thesis .
qed

lemma get_endpoint_id_first_16:
  assumes "hash c = hash c'" "SIMULATION c = SIMULATION c'"
    and "\<not> (\<forall>i < 32. ims c i = 0)" "bits_set (map (ims c) [0..<32]) = 128"
    and "\<not> (\<forall>i < 32. ims c' i = 0)" "bits_set (map (ims c') [0..<32]) = 128"
    and "\<forall>i < 16. ims c i = ims c' i"
  shows "fst (get_endpoint_id c s) \<and> fst (get_endpoint_id c' s')
       \<and> fst (snd (get_endpoint_id c s)) = fst (snd (get_endpoint_id c' s'))"
proof -
  have f: "fed1 (ims_value (tsb_get_ims c 32 s)) = fed1 (ims_value (tsb_get_ims c' 32 s'))"
    using assms(7) by (simp add: fed1_def ims_read_nth)
  have e: "fst (compute_ep_uid c (tsb_get_ims c 32 s)) = fst (compute_ep_uid c' (tsb_get_ims c' 32 s'))"
    by (simp add: compute_ep_uid_fst code_EP_UID_def code_Z0_def code_Y1_def f assms(1))
  show ?thesis
    using e assms(2)
    by (simp add: get_endpoint_id_valid[OF assms(3,4)] get_endpoint_id_valid[OF assms(5,6)])
qed

lemma secret_a_nonzero: "\<not> (\<forall>i < 32. secret_a i = 0)"
proof
  assume a: "\<forall>i < 32. secret_a i = 0"
  show False using a[rule_format, of 0] by (simp add: secret_a_def)
qed

lemma secret_b_nonzero: "\<not> (\<forall>i < 32. secret_b i = 0)"
proof
  assume a: "\<forall>i < 32. secret_b i = 0"
  show False using a[rule_format, of 0] by (simp add: secret_b_def secret_a_def)
qed

lemma secret_a_bits: "bits_set (map secret_a [0..<32]) = 128" by code_simp
lemma secret_b_bits: "bits_set (map secret_b [0..<32]) = 128" by code_simp

lemma secret_ab_first_16: "\<forall>i < 16. secret_a i = secret_b i"
  by (simp add: secret_b_def)

text \<open>
  Claim C9 as stated fails. \<open>secret_a\<close> is a valid secret (not all zero, 128 bits
  set), and \<^verbatim>\<open>get_endpoint_id\<close> derives an identifier from it. Flipping bit 0 of its
  byte 16 does not yield an input the derivation is run on: \<^verbatim>\<open>get_endpoint_id\<close> returns
  false for it. And \<open>secret_b\<close>, which is valid as well and differs from \<open>secret_a\<close>
  in byte 16 only, is derived from and gets the same identifier as \<open>secret_a\<close>, for
  every chip (so for every digest function) and all states at entry: a change of the
  secret need not change the output.
\<close>

theorem endpoint_id_unchanged_counterexample:
  "secret_a 16 = 0x0F \<and> secret_b 16 = 0x1E
   \<and> flip_secret secret_a 16 0 16 = 0x0E
   \<and> (\<forall>c s. fst (get_endpoint_id (c\<lparr>SIMULATION := False, ims := secret_a\<rparr>) s))
   \<and> (\<forall>c s. \<not> fst (get_endpoint_id (c\<lparr>SIMULATION := False, ims := flip_secret secret_a 16 0\<rparr>) s))
   \<and> (\<forall>c s s'. fst (get_endpoint_id (c\<lparr>SIMULATION := False, ims := secret_b\<rparr>) s')
          \<and> fst (snd (get_endpoint_id (c\<lparr>SIMULATION := False, ims := secret_b\<rparr>) s'))
            = fst (snd (get_endpoint_id (c\<lparr>SIMULATION := False, ims := secret_a\<rparr>) s)))"
proof (intro conjI allI)
  show "secret_a 16 = 0x0F" by (simp add: secret_a_def)
  show "secret_b 16 = 0x1E" by (simp add: secret_b_def)
  show "flip_secret secret_a 16 0 16 = 0x0E" by (simp add: flip_secret_def secret_a_def)
next
  fix c :: chip and s :: bootrom
  show "fst (get_endpoint_id (c\<lparr>SIMULATION := False, ims := secret_a\<rparr>) s)"
    using get_endpoint_id_valid[of "c\<lparr>SIMULATION := False, ims := secret_a\<rparr>" s]
      secret_a_nonzero secret_a_bits by (simp add: split_beta)
next
  fix c :: chip and s :: bootrom
  have "bits_set (map (ims (c\<lparr>SIMULATION := False, ims := secret_a\<rparr>)) [0..<32]) = 128"
    using secret_a_bits by simp
  from get_endpoint_id_flip[OF this, of 16 0 s]
  show "\<not> fst (get_endpoint_id (c\<lparr>SIMULATION := False, ims := flip_secret secret_a 16 0\<rparr>) s)"
    by simp
next
  fix c :: chip and s s' :: bootrom
  let ?a = "c\<lparr>SIMULATION := False, ims := secret_a\<rparr>"
  let ?b = "c\<lparr>SIMULATION := False, ims := secret_b\<rparr>"
  have r: "fst (get_endpoint_id ?a s) \<and> fst (get_endpoint_id ?b s')
       \<and> fst (snd (get_endpoint_id ?a s)) = fst (snd (get_endpoint_id ?b s'))"
    using secret_a_nonzero secret_a_bits secret_b_nonzero secret_b_bits secret_ab_first_16
    by (intro get_endpoint_id_first_16) simp_all
  from r show "fst (get_endpoint_id ?b s')" by simp
  from r show "fst (snd (get_endpoint_id ?b s')) = fst (snd (get_endpoint_id ?a s))" by simp
qed

text \<open>
  Claim C9, amended. The identifier is a function of the secret and of the digest function
  alone: two runs of \<^verbatim>\<open>get_endpoint_id\<close> on parts with the same 32 secret bytes (and the
  same hash and build) return the same flag and the same identifier, whatever else the
  parts and the states at entry hold. Two valid secrets that agree in their first 16
  bytes are both derived from and get the same identifier. And for every valid secret,
  flipping any single bit of its 32 bytes yields a secret that \<^verbatim>\<open>get_endpoint_id\<close>
  rejects: it returns false with the identifier 0 and the last error
  \<open>BRE_EFUSE_BAD_IMS\<close>, where it returns true for the valid secret.
\<close>

theorem endpoint_id_deterministic:
  assumes "hash c = hash c'" "SIMULATION c = SIMULATION c'"
  shows "((\<forall>i < 32. ims c i = ims c' i) \<longrightarrow>
            fst (get_endpoint_id c s) = fst (get_endpoint_id c' s')
          \<and> fst (snd (get_endpoint_id c s)) = fst (snd (get_endpoint_id c' s')))
       \<and> (\<not> (\<forall>i < 32. ims c i = 0) \<and> bits_set (map (ims c) [0..<32]) = 128
          \<and> \<not> (\<forall>i < 32. ims c' i = 0) \<and> bits_set (map (ims c') [0..<32]) = 128
          \<and> (\<forall>i < 16. ims c i = ims c' i) \<longrightarrow>
            fst (get_endpoint_id c s) \<and> fst (get_endpoint_id c' s')
          \<and> fst (snd (get_endpoint_id c s)) = fst (snd (get_endpoint_id c' s')))
       \<and> (\<not> (\<forall>i < 32. ims c i = 0) \<and> bits_set (map (ims c) [0..<32]) = 128
          \<and> j < 32 \<and> k < 8 \<longrightarrow>
            fst (get_endpoint_id c s)
          \<and> get_endpoint_id (c\<lparr>ims := flip_secret (ims c) j k\<rparr>) s =
               (False, \<lparr>low = 0, high = 0\<rparr>,
                set_last_error BRE_EFUSE_BAD_IMS
                  (tsb_get_ims (c\<lparr>ims := flip_secret (ims c) j k\<rparr>) 32 s)))"
proof (intro conjI impI)
  assume eq: "\<forall>i < 32. ims c i = ims c' i"
  have m: "map (ims c) [0..<32] = map (ims c') [0..<32]" by (rule map_ims_cong[OF eq])
  have z: "(\<forall>i < 32. ims c i = 0) \<longleftrightarrow> (\<forall>i < 32. ims c' i = 0)" using eq by auto
  have f: "fed1 (ims_value (tsb_get_ims c 32 s)) = fed1 (ims_value (tsb_get_ims c' 32 s'))"
    using eq by (simp add: fed1_def ims_read_nth)
  have e: "fst (compute_ep_uid c (tsb_get_ims c 32 s)) = fst (compute_ep_uid c' (tsb_get_ims c' 32 s'))"
    by (simp add: compute_ep_uid_fst code_EP_UID_def code_Z0_def code_Y1_def f assms(1))
  have "fst (get_endpoint_id c s) = fst (get_endpoint_id c' s') \<and>
        fst (snd (get_endpoint_id c s)) = fst (snd (get_endpoint_id c' s'))"
    using e assms(2)
    by (simp add: get_endpoint_id_def IMS_MEANINGFUL_LENGTH_def ims_is_zero_iff ims_valid_iff
        z m Let_def split: prod.splits)
  then show "fst (get_endpoint_id c s) = fst (get_endpoint_id c' s')"
    and "fst (snd (get_endpoint_id c s)) = fst (snd (get_endpoint_id c' s'))" by simp_all
next
  assume v: "\<not> (\<forall>i < 32. ims c i = 0) \<and> bits_set (map (ims c) [0..<32]) = 128
          \<and> \<not> (\<forall>i < 32. ims c' i = 0) \<and> bits_set (map (ims c') [0..<32]) = 128
          \<and> (\<forall>i < 16. ims c i = ims c' i)"
  have r: "fst (get_endpoint_id c s) \<and> fst (get_endpoint_id c' s')
       \<and> fst (snd (get_endpoint_id c s)) = fst (snd (get_endpoint_id c' s'))"
    using v by (intro get_endpoint_id_first_16[OF assms]) simp_all
  from r show "fst (get_endpoint_id c s)" by simp
  from r show "fst (get_endpoint_id c' s')" by simp
  from r show "fst (snd (get_endpoint_id c s)) = fst (snd (get_endpoint_id c' s'))" by simp
next
  assume v: "\<not> (\<forall>i < 32. ims c i = 0) \<and> bits_set (map (ims c) [0..<32]) = 128
          \<and> j < 32 \<and> k < 8"
  from v show "fst (get_endpoint_id c s)"
    using get_endpoint_id_valid[of c s] by (simp add: split_beta)
  from v show "get_endpoint_id (c\<lparr>ims := flip_secret (ims c) j k\<rparr>) s =
               (False, \<lparr>low = 0, high = 0\<rparr>,
                set_last_error BRE_EFUSE_BAD_IMS
                  (tsb_get_ims (c\<lparr>ims := flip_secret (ims c) j k\<rparr>) 32 s))"
    by (intro get_endpoint_id_flip) simp_all
qed

theorem endpoint_id_deterministic_witness:
  "fst (snd (get_endpoint_id sample_chip boot0))
     = fst (snd (get_endpoint_id (sample_chip\<lparr>vid := 7\<rparr>) (boot0\<lparr>last_error := BRE_EFUSE_ECC\<rparr>)))
   \<and> fst (get_endpoint_id (sample_chip\<lparr>ims := secret_a\<rparr>) boot0)
   \<and> fst (get_endpoint_id (sample_chip\<lparr>ims := secret_b\<rparr>) boot0)
   \<and> fst (snd (get_endpoint_id (sample_chip\<lparr>ims := secret_a\<rparr>) boot0))
     = fst (snd (get_endpoint_id (sample_chip\<lparr>ims := secret_b\<rparr>) boot0))
   \<and> \<not> fst (get_endpoint_id (sample_chip\<lparr>ims := flip_secret secret_a 16 0\<rparr>) boot0)
   \<and> fst (snd (get_endpoint_id (sample_chip\<lparr>ims := flip_secret secret_a 16 0\<rparr>) boot0))
     = \<lparr>low = 0, high = 0\<rparr>"
proof -
  have 1: "fst (snd (get_endpoint_id sample_chip boot0))
     = fst (snd (get_endpoint_id (sample_chip\<lparr>vid := 7\<rparr>) (boot0\<lparr>last_error := BRE_EFUSE_ECC\<rparr>)))"
    using endpoint_id_deterministic[of sample_chip "sample_chip\<lparr>vid := 7\<rparr>"
        boot0 "boot0\<lparr>last_error := BRE_EFUSE_ECC\<rparr>"]
    by simp
  have 2: "fst (get_endpoint_id (sample_chip\<lparr>ims := secret_a\<rparr>) boot0)
   \<and> fst (get_endpoint_id (sample_chip\<lparr>ims := secret_b\<rparr>) boot0)
   \<and> fst (snd (get_endpoint_id (sample_chip\<lparr>ims := secret_a\<rparr>) boot0))
     = fst (snd (get_endpoint_id (sample_chip\<lparr>ims := secret_b\<rparr>) boot0))"
    using endpoint_id_deterministic[of "sample_chip\<lparr>ims := secret_a\<rparr>"
        "sample_chip\<lparr>ims := secret_b\<rparr>" boot0 boot0]
      secret_a_nonzero secret_a_bits secret_b_nonzero secret_b_bits secret_ab_first_16
    by simp
  have 3: "get_endpoint_id (sample_chip\<lparr>ims := flip_secret secret_a 16 0\<rparr>) boot0 =
               (False, \<lparr>low = 0, high = 0\<rparr>,
                set_last_error BRE_EFUSE_BAD_IMS
                  (tsb_get_ims (sample_chip\<lparr>ims := flip_secret secret_a 16 0\<rparr>) 32 boot0))"
    using endpoint_id_deterministic[where c="sample_chip\<lparr>ims := secret_a\<rparr>"
        and c'="sample_chip\<lparr>ims := secret_a\<rparr>" and s=boot0 and s'=boot0 and j=16 and k=0]
      secret_a_nonzero secret_a_bits
    by simp
  from 1 2 3 show ?thesis by simp
qed

section \<open>efuse\_init\<close>

text \<open>
  Claim C5. When the ECC status has the error bit set, \<^verbatim>\<open>efuse_init\<close> returns -1 with the
  last error \<open>BRE_EFUSE_ECC\<close>, and nothing else has changed: the only call made is the
  read of the ECC status, so no identity field and no secret field was read.
\<close>

theorem efuse_init_ecc_error:
  assumes "eccerror c AND TSB_ECCERROR_ECC_ERROR c \<noteq> 0"
  shows "efuse_init c s =
           (- 1, s\<lparr>last_error := BRE_EFUSE_ECC, calls := calls s @ [Get_eccerror]\<rparr>)"
  using assms by (simp add: efuse_init_def tsb_get_eccerror_def set_last_error_def)

theorem efuse_init_ecc_error_witness:
  "eccerror (sample_chip\<lparr>eccerror := 1\<rparr>) AND TSB_ECCERROR_ECC_ERROR (sample_chip\<lparr>eccerror := 1\<rparr>) \<noteq> 0
   \<and> efuse_init (sample_chip\<lparr>eccerror := 1\<rparr>) boot0
       = (- 1, boot0\<lparr>last_error := BRE_EFUSE_ECC, calls := [Get_eccerror]\<rparr>)"
  using efuse_init_ecc_error[of "sample_chip\<lparr>eccerror := 1\<rparr>" boot0]
  by (simp add: sample_chip_def boot0_def)

text \<open>
  Claim C6. With the ECC check passed: if the vendor ID fails the Hamming-weight check,
  \<^verbatim>\<open>efuse_init\<close> returns -1 with the last error \<open>BRE_EFUSE_BAD_ARA_VID\<close>, and the product
  ID has not been read; if the vendor ID passes and the product ID fails, it returns -1
  with \<open>BRE_EFUSE_BAD_ARA_PID\<close>, a different code; and the product ID is read only if
  the vendor ID passed.
\<close>

theorem efuse_init_bad_identity:
  assumes "eccerror c AND TSB_ECCERROR_ECC_ERROR c = 0"
  shows "(\<not> valid_hamming_weight (store32 (vid c)) 4 \<longrightarrow>
            efuse_init c s =
              (- 1, s\<lparr>last_error := BRE_EFUSE_BAD_ARA_VID, ara_vid := vid c,
                       calls := calls s @ [Get_eccerror, Get_vid]\<rparr>))
       \<and> (valid_hamming_weight (store32 (vid c)) 4 \<and> \<not> valid_hamming_weight (store32 (pid c)) 4 \<longrightarrow>
            efuse_init c s =
              (- 1, s\<lparr>last_error := BRE_EFUSE_BAD_ARA_PID, ara_vid := vid c, ara_pid := pid c,
                       calls := calls s @ [Get_eccerror, Get_vid, Get_pid]\<rparr>))
       \<and> BRE_EFUSE_BAD_ARA_PID \<noteq> BRE_EFUSE_BAD_ARA_VID
       \<and> (Get_pid \<in> set (drop (length (calls s)) (calls (snd (efuse_init c s)))) \<longrightarrow>
            valid_hamming_weight (store32 (vid c)) 4)"
proof -
  have 1: "efuse_init c s =
              (- 1, s\<lparr>last_error := BRE_EFUSE_BAD_ARA_VID, ara_vid := vid c,
                       calls := calls s @ [Get_eccerror, Get_vid]\<rparr>)"
    if "\<not> valid_hamming_weight (store32 (vid c)) 4"
    using assms that
    by (simp add: efuse_init_def tsb_get_eccerror_def tsb_get_vid_def set_last_error_def)
  have 2: "efuse_init c s =
              (- 1, s\<lparr>last_error := BRE_EFUSE_BAD_ARA_PID, ara_vid := vid c, ara_pid := pid c,
                       calls := calls s @ [Get_eccerror, Get_vid, Get_pid]\<rparr>)"
    if "valid_hamming_weight (store32 (vid c)) 4" "\<not> valid_hamming_weight (store32 (pid c)) 4"
    using assms that
    by (simp add: efuse_init_def tsb_get_eccerror_def tsb_get_vid_def tsb_get_pid_def
        set_last_error_def)
  have 3: "valid_hamming_weight (store32 (vid c)) 4"
    if "Get_pid \<in> set (drop (length (calls s)) (calls (snd (efuse_init c s))))"
  proof (rule ccontr)
    assume "\<not> valid_hamming_weight (store32 (vid c)) 4"
    from 1[OF this] that show False by simp
  qed
  show ?thesis
  proof (intro conjI impI)
    assume "\<not> valid_hamming_weight (store32 (vid c)) 4"
    then show "efuse_init c s =
              (- 1, s\<lparr>last_error := BRE_EFUSE_BAD_ARA_VID, ara_vid := vid c,
                       calls := calls s @ [Get_eccerror, Get_vid]\<rparr>)"
      by (rule 1)
  next
    assume "valid_hamming_weight (store32 (vid c)) 4 \<and> \<not> valid_hamming_weight (store32 (pid c)) 4"
    then show "efuse_init c s =
              (- 1, s\<lparr>last_error := BRE_EFUSE_BAD_ARA_PID, ara_vid := vid c, ara_pid := pid c,
                       calls := calls s @ [Get_eccerror, Get_vid, Get_pid]\<rparr>)"
      using 2 by blast
  next
    show "BRE_EFUSE_BAD_ARA_PID \<noteq> BRE_EFUSE_BAD_ARA_VID" by simp
  next
    assume "Get_pid \<in> set (drop (length (calls s)) (calls (snd (efuse_init c s))))"
    then show "valid_hamming_weight (store32 (vid c)) 4" by (rule 3)
  qed
qed

theorem efuse_init_bad_identity_witness:
  "efuse_init (sample_chip\<lparr>vid := 7\<rparr>) boot0
       = (- 1, boot0\<lparr>last_error := BRE_EFUSE_BAD_ARA_VID, ara_vid := 7,
                     calls := [Get_eccerror, Get_vid]\<rparr>)
   \<and> efuse_init (sample_chip\<lparr>pid := 7\<rparr>) boot0
       = (- 1, boot0\<lparr>last_error := BRE_EFUSE_BAD_ARA_PID, ara_vid := 0x0000FFFF, ara_pid := 7,
                     calls := [Get_eccerror, Get_vid, Get_pid]\<rparr>)"
  using efuse_init_bad_identity[of "sample_chip\<lparr>vid := 7\<rparr>" boot0]
        efuse_init_bad_identity[of "sample_chip\<lparr>pid := 7\<rparr>" boot0]
        vid_ffff_valid id_7_invalid
  by (simp add: sample_chip_def boot0_def)

text \<open>
  Claim C7. With the ECC and identity checks passed, the 32 meaningful secret bytes all
  zero and the last error OK at entry (the state the boot process calls the routine in),
  \<^verbatim>\<open>efuse_init\<close> returns 0 and the last error is still OK. The calls made are the four
  reads: no hash session was started, so no identifier was derived, and no attribute was
  written.
\<close>

theorem efuse_init_unprovisioned:
  assumes "eccerror c AND TSB_ECCERROR_ECC_ERROR c = 0"
    and "valid_hamming_weight (store32 (vid c)) 4" "valid_hamming_weight (store32 (pid c)) 4"
    and "\<forall>i < 32. ims c i = 0"
    and "last_error s = BRE_OK"
  shows "efuse_init c s =
           (0, s\<lparr>ara_vid := vid c, ara_pid := pid c,
                  ims_value := replicate 32 0 @ drop 32 (ims_value s),
                  calls := calls s @ [Get_eccerror, Get_vid, Get_pid, Get_ims 32]\<rparr>)
       \<and> last_error (snd (efuse_init c s)) = BRE_OK"
proof -
  have z: "map (ims c) [0..<32] = replicate 32 0"
  proof (rule nth_equalityI)
    show "length (map (ims c) [0..<32]) = length (replicate 32 (0::byte))" by simp
  next
    fix i assume "i < length (map (ims c) [0..<32])"
    then have "i < 32" by simp
    then show "map (ims c) [0..<32] ! i = replicate 32 0 ! i" using assms(4) by simp
  qed
  show ?thesis
    using assms
    by (simp add: efuse_init_def tsb_get_eccerror_def tsb_get_vid_def tsb_get_pid_def
        get_endpoint_id_unset get_last_error_def tsb_get_ims_def z)
qed

theorem efuse_init_unprovisioned_witness:
  "efuse_init (sample_chip\<lparr>ims := \<lambda>i. 0\<rparr>) boot0
       = (0, boot0\<lparr>ara_vid := 0x0000FFFF, ara_pid := 0,
                    calls := [Get_eccerror, Get_vid, Get_pid, Get_ims 32]\<rparr>)
   \<and> last_error (snd (efuse_init (sample_chip\<lparr>ims := \<lambda>i. 0\<rparr>) boot0)) = BRE_OK"
proof -
  have r: "replicate 32 (0::byte) @ replicate 3 0 = replicate 35 0"
    by (simp flip: replicate_add)
  show ?thesis
    using efuse_init_unprovisioned[of "sample_chip\<lparr>ims := \<lambda>i. 0\<rparr>" boot0]
        vid_ffff_valid id_0_valid
    by (simp add: sample_chip_def boot0_def r)
qed

text \<open>
  The hypothesis on the last error is needed: \<^verbatim>\<open>efuse_init\<close> tells ``no secret'' from
  ``bad secret'' by reading the last-error slot, so an error left there by earlier code
  turns the unprovisioned case into a failure.
\<close>

lemma efuse_init_unprovisioned_stale_error:
  assumes "eccerror c AND TSB_ECCERROR_ECC_ERROR c = 0"
    and "valid_hamming_weight (store32 (vid c)) 4" "valid_hamming_weight (store32 (pid c)) 4"
    and "\<forall>i < 32. ims c i = 0"
    and "last_error s \<noteq> BRE_OK"
  shows "fst (efuse_init c s) = - 1"
  using assms
  by (simp add: efuse_init_def tsb_get_eccerror_def tsb_get_vid_def tsb_get_pid_def
      get_endpoint_id_unset get_last_error_def tsb_get_ims_def)

text \<open>
  Claim C8. With the ECC and identity checks passed and a secret that is not all zero and
  whose number of set bits is neither 0 nor 128, \<^verbatim>\<open>efuse_init\<close> returns -1 with the last
  error \<open>BRE_EFUSE_BAD_IMS\<close>, which is not OK (the unprovisioned case returns 0 and leaves
  the last error as it was). The calls made are the four reads: no attribute was written.
\<close>

theorem efuse_init_bad_ims:
  assumes "eccerror c AND TSB_ECCERROR_ECC_ERROR c = 0"
    and "valid_hamming_weight (store32 (vid c)) 4" "valid_hamming_weight (store32 (pid c)) 4"
    and "\<not> (\<forall>i < 32. ims c i = 0)"
    and "bits_set (map (ims c) [0..<32]) \<noteq> 0" "bits_set (map (ims c) [0..<32]) \<noteq> 128"
  shows "efuse_init c s =
           (- 1, s\<lparr>last_error := BRE_EFUSE_BAD_IMS, ara_vid := vid c, ara_pid := pid c,
                    ims_value := map (ims c) [0..<32] @ drop 32 (ims_value s),
                    calls := calls s @ [Get_eccerror, Get_vid, Get_pid, Get_ims 32]\<rparr>)
       \<and> BRE_EFUSE_BAD_IMS \<noteq> BRE_OK"
  using assms
  by (simp add: efuse_init_def tsb_get_eccerror_def tsb_get_vid_def tsb_get_pid_def
        get_endpoint_id_invalid get_last_error_def set_last_error_def tsb_get_ims_def)

theorem efuse_init_bad_ims_witness:
  "bits_set (map (ims (sample_chip\<lparr>ims := \<lambda>i. 1\<rparr>)) [0..<32]) = 32
   \<and> fst (efuse_init (sample_chip\<lparr>ims := \<lambda>i. 1\<rparr>) boot0) = - 1
   \<and> last_error (snd (efuse_init (sample_chip\<lparr>ims := \<lambda>i. 1\<rparr>) boot0)) = BRE_EFUSE_BAD_IMS
   \<and> calls (snd (efuse_init (sample_chip\<lparr>ims := \<lambda>i. 1\<rparr>) boot0))
       = [Get_eccerror, Get_vid, Get_pid, Get_ims 32]"
  using efuse_init_bad_ims[of "sample_chip\<lparr>ims := \<lambda>i. 1\<rparr>" boot0]
        vid_ffff_valid id_0_valid ones_bits ex_less_32
  by (simp add: sample_chip_def boot0_def)

end
